theory Spec2Isabelle
  imports Main "HOL-Library.Word"
begin

unbundle bit_operations_syntax

section \<open>Go library functions used by the proof-of-work engine\<close>

text \<open>
  A Go \<^verbatim>\<open>string\<close> is a sequence of bytes; it is modelled as an Isabelle
  \<^typ>\<open>string\<close>, whose characters are bytes. Go's \<^verbatim>\<open>int\<close>, of 64 bits, is
  modelled as \<^typ>\<open>int\<close>. A Go panic is a value: a function that may panic returns
  \<open>panic + 'a\<close>, with \<open>Inl\<close> for the panic.
\<close>

datatype panic = Panic string

type_synonym u32 = "32 word"
type_synonym byte = "8 word"

subsection \<open>\<^verbatim>\<open>strings.Repeat\<close> and \<^verbatim>\<open>strings.HasPrefix\<close>\<close>

text \<open>
  \<^verbatim>\<open>strings.Repeat(s, count)\<close> returns \<open>count\<close> copies of \<open>s\<close>. It returns at once
  for the counts 0 and 1, and panics on a negative count and on a result longer than the
  largest \<^verbatim>\<open>int\<close>. It then builds the result in a \<^verbatim>\<open>strings.Builder\<close> grown to the
  length of the result, and the allocation panics in the runtime when that length
  exceeds \<open>maxAlloc\<close>, the largest size the runtime allocates: \<open>2^48\<close> bytes on
  linux/amd64, the platform the repository builds for. (Short runs of zeros are cut from
  a constant string, without an allocation. Below \<open>maxAlloc\<close> an allocation that the
  machine has no memory for ends the process with a fatal error; how much memory there
  is is not modelled.)
\<close>

definition maxInt :: int where
  "maxInt = 2 ^ 63 - 1"

definition maxAlloc :: int where
  "maxAlloc = 2 ^ 48"

definition Repeat :: "string \<Rightarrow> int \<Rightarrow> panic + string" where
  "Repeat s count =
     (if count = 0 then Inr []
      else if count = 1 then Inr s
      else if count < 0 then Inl (Panic ''strings: negative Repeat count'')
      else if int (length s) * count > maxInt then
        Inl (Panic ''strings: Repeat output length overflow'')
      else if length s = 0 then Inr []
      else if int (length s) * count > maxAlloc then
        Inl (Panic ''runtime error: makeslice: len out of range'')
      else Inr (concat (replicate (nat count) s)))"

text \<open>\<^verbatim>\<open>return len(s) >= len(prefix) && s[:len(prefix)] == prefix\<close>\<close>

definition HasPrefix :: "string \<Rightarrow> string \<Rightarrow> bool" where
  "HasPrefix s pre = (length s \<ge> length pre \<and> take (length pre) s = pre)"

subsection \<open>\<^verbatim>\<open>crypto/sha256.Sum256\<close>\<close>

text \<open>
  SHA-256 as FIPS 180-4 defines it and as \<^verbatim>\<open>crypto/sha256\<close> computes it: the
  message is padded to a multiple of 64 bytes, and each block of sixteen big-endian
  32-bit words is expanded to a schedule of 64 words and run through 64 rounds.
\<close>

definition K256 :: "u32 list" where
  "K256 = [
    0x428A2F98, 0x71374491, 0xB5C0FBCF, 0xE9B5DBA5, 0x3956C25B, 0x59F111F1, 0x923F82A4, 0xAB1C5ED5,
    0xD807AA98, 0x12835B01, 0x243185BE, 0x550C7DC3, 0x72BE5D74, 0x80DEB1FE, 0x9BDC06A7, 0xC19BF174,
    0xE49B69C1, 0xEFBE4786, 0x0FC19DC6, 0x240CA1CC, 0x2DE92C6F, 0x4A7484AA, 0x5CB0A9DC, 0x76F988DA,
    0x983E5152, 0xA831C66D, 0xB00327C8, 0xBF597FC7, 0xC6E00BF3, 0xD5A79147, 0x06CA6351, 0x14292967,
    0x27B70A85, 0x2E1B2138, 0x4D2C6DFC, 0x53380D13, 0x650A7354, 0x766A0ABB, 0x81C2C92E, 0x92722C85,
    0xA2BFE8A1, 0xA81A664B, 0xC24B8B70, 0xC76C51A3, 0xD192E819, 0xD6990624, 0xF40E3585, 0x106AA070,
    0x19A4C116, 0x1E376C08, 0x2748774C, 0x34B0BCB5, 0x391C0CB3, 0x4ED8AA4A, 0x5B9CCA4F, 0x682E6FF3,
    0x748F82EE, 0x78A5636F, 0x84C87814, 0x8CC70208, 0x90BEFFFA, 0xA4506CEB, 0xBEF9A3F7, 0xC67178F2]"

definition init256 :: "u32 list" where
  "init256 = [0x6A09E667, 0xBB67AE85, 0x3C6EF372, 0xA54FF53A,
              0x510E527F, 0x9B05688C, 0x1F83D9AB, 0x5BE0CD19]"

definition rotr :: "nat \<Rightarrow> u32 \<Rightarrow> u32" where
  "rotr n x = (drop_bit n x) OR (push_bit (32 - n) x)"

definition be32 :: "byte list \<Rightarrow> u32" where
  "be32 bs = foldl (\<lambda>acc b. push_bit 8 acc OR ucast b) 0 bs"

fun chunks4 :: "byte list \<Rightarrow> u32 list" where
  "chunks4 (a # b # c # d # rest) = be32 [a, b, c, d] # chunks4 rest"
| "chunks4 _ = []"

definition ssig0 :: "u32 \<Rightarrow> u32" where
  "ssig0 x = rotr 7 x XOR rotr 18 x XOR drop_bit 3 x"

definition ssig1 :: "u32 \<Rightarrow> u32" where
  "ssig1 x = rotr 17 x XOR rotr 19 x XOR drop_bit 10 x"

definition bsig0 :: "u32 \<Rightarrow> u32" where
  "bsig0 x = rotr 2 x XOR rotr 13 x XOR rotr 22 x"

definition bsig1 :: "u32 \<Rightarrow> u32" where
  "bsig1 x = rotr 6 x XOR rotr 11 x XOR rotr 25 x"

text \<open>The message schedule: \<open>ws\<close> holds the words computed so far.\<close>

fun schedule :: "nat \<Rightarrow> u32 list \<Rightarrow> u32 list" where
  "schedule 0 ws = ws"
| "schedule (Suc k) ws =
     (let i = length ws in
      schedule k (ws @ [ssig1 (ws ! (i - 2)) + ws ! (i - 7) + ssig0 (ws ! (i - 15)) + ws ! (i - 16)]))"

fun rounds :: "u32 list \<Rightarrow> u32 list \<Rightarrow> u32 list \<Rightarrow> u32 list" where
  "rounds [a, b, c, d, e, f, g, h] (k # ks) (w # ws) =
     (let t1 = h + bsig1 e + ((e AND f) XOR (NOT e AND g)) + k + w;
          t2 = bsig0 a + ((a AND b) XOR (a AND c) XOR (b AND c))
      in rounds [t1 + t2, a, b, c, d + t1, e, f, g] ks ws)"
| "rounds st _ _ = st"

definition block :: "u32 list \<Rightarrow> byte list \<Rightarrow> u32 list" where
  "block h p = map2 (+) h (rounds h K256 (schedule 48 (chunks4 p)))"

function blocks :: "u32 list \<Rightarrow> byte list \<Rightarrow> u32 list" where
  "blocks h p = (if length p < 64 then h else blocks (block h (take 64 p)) (drop 64 p))"
  by pat_completeness auto
termination
  by (relation "measure (\<lambda>(h, p). length p)") auto

text \<open>
  The padding of a message of \<open>len\<close> bytes: the byte \<open>0x80\<close>, zero bytes up to 56
  modulo 64, and the length in bits as a big-endian 64-bit number.
\<close>

definition pad :: "nat \<Rightarrow> byte list" where
  "pad len = 0x80 # replicate ((119 - len mod 64) mod 64) 0 @
     map (\<lambda>i. ucast (drop_bit (8 * (7 - i)) (of_nat (8 * len) :: 64 word))) [0..<8]"

definition Sum256 :: "string \<Rightarrow> byte list" where
  "Sum256 data =
     (let bs = map of_char data in
      concat (map (\<lambda>w. map (\<lambda>i. ucast (drop_bit (8 * (3 - i)) w)) [0..<4])
        (blocks init256 (bs @ pad (length bs)))))"

subsection \<open>\<^verbatim>\<open>encoding/hex.EncodeToString\<close>\<close>

text \<open>Two lower-case digits per byte: \<^verbatim>\<open>hextable[v>>4]\<close>, \<^verbatim>\<open>hextable[v&0x0f]\<close>.\<close>

definition hextable :: string where
  "hextable = ''0123456789abcdef''"

definition EncodeToString :: "byte list \<Rightarrow> string" where
  "EncodeToString src =
     concat (map (\<lambda>v. [hextable ! unat (drop_bit 4 v), hextable ! unat (v AND 0x0f)]) src)"

section \<open>The proof-of-work engine (\<^verbatim>\<open>internal/pow/sha256.go\<close>)\<close>

text \<open>
  \<^verbatim>\<open>math/rand.Rand\<close> is modelled by the sequence of values it is about to draw.
\<close>

record Rand =
  draws :: "nat \<Rightarrow> nat"
  pos :: nat

text \<open>
  \<^verbatim>\<open>Intn(n)\<close> panics unless \<open>n > 0\<close> and otherwise returns a number in
  \<open>[0, n)\<close>; the next draw is reduced into that range.
\<close>

definition Intn :: "Rand \<Rightarrow> int \<Rightarrow> panic + (int \<times> Rand)" where
  "Intn r n =
     (if n \<le> 0 then Inl (Panic ''invalid argument to Intn'')
      else Inr (int (draws r (pos r)) mod n, r\<lparr>pos := pos r + 1\<rparr>))"

definition seededRand :: "nat \<Rightarrow> Rand" where
  "seededRand seed = \<lparr>draws = (\<lambda>k. seed + k), pos = 0\<rparr>"

record SHA256PoW =
  difficulty :: int
  rng :: Rand

definition NewSHA256PoW :: "int \<Rightarrow> Rand \<Rightarrow> SHA256PoW" where
  "NewSHA256PoW d r = \<lparr>difficulty = d, rng = r\<rparr>"

text \<open>
  \<^verbatim>\<open>Int63()\<close> returns a non-negative 63-bit number, and \<^verbatim>\<open>fmt.Sprintf("%x", v)\<close>
  writes it in hexadecimal, lower case, without leading zeros.
\<close>

definition Int63 :: "Rand \<Rightarrow> int \<times> Rand" where
  "Int63 r = (int (draws r (pos r) mod 2 ^ 63), r\<lparr>pos := pos r + 1\<rparr>)"

function hexDigits :: "nat \<Rightarrow> string" where
  "hexDigits n = (if n < 16 then [hextable ! n] else hexDigits (n div 16) @ [hextable ! (n mod 16)])"
  by pat_completeness auto
termination
  by (relation "measure id") auto

declare hexDigits.simps [simp del]

text \<open>\<^verbatim>\<open>return fmt.Sprintf("%x", p.rng.Int63())\<close>\<close>

definition GenerateChallenge :: "SHA256PoW \<Rightarrow> string \<times> SHA256PoW" where
  "GenerateChallenge p = (let (v, r') = Int63 (rng p) in (hexDigits (nat v), p\<lparr>rng := r'\<rparr>))"

text \<open>
  \<^verbatim>\<open>hash := sha256.Sum256([]byte(challenge + solution))\<close>,
  \<^verbatim>\<open>hashStr := hex.EncodeToString(hash[:])\<close>,
  \<^verbatim>\<open>return strings.HasPrefix(hashStr, strings.Repeat("0", p.difficulty))\<close>.
\<close>

definition ValidateChallenge :: "SHA256PoW \<Rightarrow> string \<Rightarrow> string \<Rightarrow> panic + bool" where
  "ValidateChallenge p challenge solution =
     (let hash = Sum256 (challenge @ solution);
          hashStr = EncodeToString hash
      in case Repeat ''0'' (difficulty p) of
           Inl e \<Rightarrow> Inl e
         | Inr zeros \<Rightarrow> Inr (HasPrefix hashStr zeros))"

text \<open>The number of leading \<open>0\<close> characters of a hexadecimal digest.\<close>

definition leadingZeros :: "string \<Rightarrow> nat" where
  "leadingZeros s = length (takeWhile (\<lambda>c. c = CHR ''0'') s)"

section \<open>The payload source (\<^verbatim>\<open>internal/quotes/quotes.go\<close>)\<close>

definition Stub :: string where
  "Stub = ''Angry people are not always wise.''"

text \<open>The struct's second field is named \<^verbatim>\<open>rng\<close> in the source.\<close>

record RandomQuoteProvider =
  quotes :: "string list"
  qrng :: Rand

definition NewRandomQuoteProvider :: "string list \<Rightarrow> Rand \<Rightarrow> RandomQuoteProvider" where
  "NewRandomQuoteProvider qs r = \<lparr>quotes = qs, qrng = r\<rparr>"

text \<open>
  \<^verbatim>\<open>if len(q.quotes) == 0 { return Stub }\<close>,
  \<^verbatim>\<open>return q.quotes[q.rng.Intn(len(q.quotes))]\<close>. Indexing outside the slice
  panics in Go.
\<close>

definition GetQuote :: "RandomQuoteProvider \<Rightarrow> (panic + string) \<times> RandomQuoteProvider" where
  "GetQuote q =
     (if length (quotes q) = 0 then (Inr Stub, q)
      else case Intn (qrng q) (int (length (quotes q))) of
             Inl e \<Rightarrow> (Inl e, q)
           | Inr (i, r') \<Rightarrow>
               (if 0 \<le> i \<and> i < int (length (quotes q)) then Inr (quotes q ! nat i)
                else Inl (Panic ''index out of range''),
                q\<lparr>qrng := r'\<rparr>))"

section \<open>Connections\<close>

text \<open>
  Go errors. \<^verbatim>\<open>fmt.Errorf("...: %w", err)\<close> wraps \<open>err\<close> behind a message prefix.
  \<open>EOF\<close> is \<^verbatim>\<open>io.EOF\<close>, \<open>ErrNoProgress\<close> is \<^verbatim>\<open>io.ErrNoProgress\<close> and
  \<open>ErrBufferFull\<close> is \<^verbatim>\<open>bufio.ErrBufferFull\<close>. A connection reports the end of the
  stream or an error of the network (a timeout, a reset, the error of a mock).
\<close>

datatype error = EOF | ErrBufferFull | ErrNoProgress | OpError string | Wrapped string error

datatype neterr = ConnEOF | ConnErr string

fun toError :: "neterr \<Rightarrow> error" where
  "toError ConnEOF = EOF"
| "toError (ConnErr m) = OpError m"

fun errorString :: "error \<Rightarrow> string" where
  "errorString EOF = ''EOF''"
| "errorString ErrBufferFull = ''bufio: buffer full''"
| "errorString ErrNoProgress = ''multiple Read calls return no data or error''"
| "errorString (OpError m) = m"
| "errorString (Wrapped pre e) = pre @ errorString e"

text \<open>
  What a connection is about to deliver: each segment is the data of one arrival and
  the error, if any, that the \<^verbatim>\<open>Read\<close> call emptying the segment reports with it.
\<close>

datatype segment = Seg string "neterr option"

datatype addr = TCPAddr string int | OtherAddr string

text \<open>
  A \<^verbatim>\<open>net.Conn\<close> as the server sees it. \<open>rx\<close> is the input still to come and
  \<open>wrs\<close> the outcomes of the \<^verbatim>\<open>Write\<close> calls still to come (success once the list
  is used up). \<open>written\<close> records every \<^verbatim>\<open>Write\<close> call with its payload and its
  outcome, \<open>bytesRead\<close> counts the bytes \<^verbatim>\<open>Read\<close> has delivered, \<open>closeCalls\<close>
  counts the calls of \<^verbatim>\<open>Close\<close>, \<open>deadline\<close> is the last deadline set, and
  \<open>deadlineErr\<close> is the error, if any, with which \<^verbatim>\<open>SetDeadline\<close> fails.
\<close>

record Conn =
  remoteAddr :: addr
  rx :: "segment list"
  wrs :: "neterr option list"
  written :: "(string \<times> neterr option) list"
  bytesRead :: nat
  closeCalls :: nat
  deadline :: "int option"
  deadlineErr :: "neterr option"

text \<open>
  \<^verbatim>\<open>Read(p)\<close> with \<open>n = len(p)\<close>: at most \<open>n\<close> bytes of the first segment. A
  connection with no input left reports the end of the stream.
\<close>

definition Conn_Read :: "Conn \<Rightarrow> nat \<Rightarrow> (string \<times> error option) \<times> Conn" where
  "Conn_Read c n =
     (case rx c of
        [] \<Rightarrow> (([], Some EOF), c)
      | Seg bs e # rest \<Rightarrow>
          if length bs \<le> n
          then ((bs, map_option toError e), c\<lparr>rx := rest, bytesRead := bytesRead c + length bs\<rparr>)
          else ((take n bs, None), c\<lparr>rx := Seg (drop n bs) e # rest, bytesRead := bytesRead c + n\<rparr>))"

definition Conn_Write :: "Conn \<Rightarrow> string \<Rightarrow> error option \<times> Conn" where
  "Conn_Write c p =
     (case wrs c of
        [] \<Rightarrow> (None, c\<lparr>written := written c @ [(p, None)]\<rparr>)
      | r # rs \<Rightarrow> (map_option toError r, c\<lparr>wrs := rs, written := written c @ [(p, r)]\<rparr>))"

definition Conn_Close :: "Conn \<Rightarrow> Conn" where
  "Conn_Close c = c\<lparr>closeCalls := closeCalls c + 1\<rparr>"

definition Conn_SetDeadline :: "Conn \<Rightarrow> int \<Rightarrow> error option \<times> Conn" where
  "Conn_SetDeadline c t =
     (case deadlineErr c of
        Some e \<Rightarrow> (Some (toError e), c)
      | None \<Rightarrow> (None, c\<lparr>deadline := Some t\<rparr>))"

text \<open>The bytes a connection has still to deliver.\<close>

fun segdata :: "segment \<Rightarrow> string" where
  "segdata (Seg bs e) = bs"

definition stream :: "Conn \<Rightarrow> string" where
  "stream c = concat (map segdata (rx c))"

section \<open>\<^verbatim>\<open>io.LimitedReader\<close> and \<^verbatim>\<open>bufio.Reader\<close>\<close>

record LimitedReader =
  R :: Conn
  N :: int

text \<open>
  \<^verbatim>\<open>if l.N <= 0 { return 0, EOF }\<close>,
  \<^verbatim>\<open>if int64(len(p)) > l.N { p = p[0:l.N] }\<close>,
  \<^verbatim>\<open>n, err = l.R.Read(p)\<close>, \<^verbatim>\<open>l.N -= int64(n)\<close>.
\<close>

definition LimitedReader_Read :: "LimitedReader \<Rightarrow> nat \<Rightarrow> (string \<times> error option) \<times> LimitedReader" where
  "LimitedReader_Read l n =
     (if N l \<le> 0 then (([], Some EOF), l)
      else
        let n' = (if int n > N l then nat (N l) else n);
            ((bs, e), c') = Conn_Read (R l) n'
        in ((bs, e), l\<lparr>R := c', N := N l - int (length bs)\<rparr>))"

text \<open>
  A \<^verbatim>\<open>bufio.Reader\<close>: \<open>buffered\<close> is \<^verbatim>\<open>b.buf[b.r:b.w]\<close>, the bytes read from
  \<open>rd\<close> and not yet handed out, and \<open>err\<close> the pending error. The buffer has
  \<open>defaultBufSize\<close> bytes, so a \<^verbatim>\<open>fill\<close> asks for
  \<open>defaultBufSize - length buffered\<close> bytes.
\<close>

record Reader =
  rd :: LimitedReader
  buffered :: string
  err :: "error option"

definition defaultBufSize :: nat where
  "defaultBufSize = 4096"

definition maxConsecutiveEmptyReads :: nat where
  "maxConsecutiveEmptyReads = 100"

definition NewReader :: "LimitedReader \<Rightarrow> Reader" where
  "NewReader l = \<lparr>rd = l, buffered = [], err = None\<rparr>"

text \<open>
  The loop of \<^verbatim>\<open>fill\<close>: \<^verbatim>\<open>for i := maxConsecutiveEmptyReads; i > 0; i--\<close>, reading
  until a \<^verbatim>\<open>Read\<close> returns data or an error, and \<^verbatim>\<open>b.err = io.ErrNoProgress\<close>
  after the last round. (\<^verbatim>\<open>fill\<close> panics on a full buffer; \<^verbatim>\<open>ReadSlice\<close>, its
  only caller here, returns \<open>ErrBufferFull\<close> before.)
\<close>

fun fill_loop :: "nat \<Rightarrow> Reader \<Rightarrow> Reader" where
  "fill_loop 0 b = b\<lparr>err := Some ErrNoProgress\<rparr>"
| "fill_loop (Suc i) b =
     (let ((bs, e), l') = LimitedReader_Read (rd b) (defaultBufSize - length (buffered b));
          b' = b\<lparr>rd := l', buffered := buffered b @ bs\<rparr>
      in case e of
           Some x \<Rightarrow> b'\<lparr>err := Some x\<rparr>
         | None \<Rightarrow> if length bs > 0 then b' else fill_loop i b')"

definition fill :: "Reader \<Rightarrow> Reader" where
  "fill b = fill_loop maxConsecutiveEmptyReads b"

text \<open>\<^verbatim>\<open>bytes.IndexByte\<close>: the index of the first \<open>c\<close>, if any.\<close>

fun IndexByte :: "string \<Rightarrow> char \<Rightarrow> nat option" where
  "IndexByte [] c = None"
| "IndexByte (x # xs) c = (if x = c then Some 0 else map_option Suc (IndexByte xs c))"

lemma Conn_Read_length:
  "Conn_Read c n = ((bs, e), c') \<Longrightarrow> length bs \<le> n"
  by (auto simp: Conn_Read_def split: list.splits segment.splits if_splits)

lemma LimitedReader_Read_budget:
  assumes "LimitedReader_Read l n = ((bs, e), l')"
  shows "nat (N l') + length bs = nat (N l)"
proof (cases "N l \<le> 0")
  case True
  with assms show ?thesis by (simp add: LimitedReader_Read_def)
next
  case False
  define n' where "n' = (if int n > N l then nat (N l) else n)"
  obtain c' where rd: "Conn_Read (R l) n' = ((bs, e), c')" and l': "l' = l\<lparr>R := c', N := N l - int (length bs)\<rparr>"
    using assms False
    by (auto simp: LimitedReader_Read_def Let_def n'_def split: prod.splits)
  from Conn_Read_length [OF rd] have "length bs \<le> n'" .
  moreover from False have "int n' \<le> N l" by (auto simp: n'_def)
  ultimately show ?thesis using l' by simp
qed

lemma toError_not_full: "toError z \<noteq> ErrBufferFull"
  by (cases z) simp_all

lemma LimitedReader_Read_not_full:
  "LimitedReader_Read l n = ((bs, e), l') \<Longrightarrow> e \<noteq> Some ErrBufferFull"
  by (auto simp: LimitedReader_Read_def Conn_Read_def Let_def toError_not_full
      split: if_splits prod.splits list.splits segment.splits option.splits)

lemma fill_loop_grows:
  "length (buffered b) \<le> length (buffered (fill_loop i b))"
proof (induction i arbitrary: b)
  case 0
  then show ?case by simp
next
  case (Suc i)
  obtain bs e l' where r: "LimitedReader_Read (rd b) (defaultBufSize - length (buffered b)) = ((bs, e), l')"
    by (metis prod.exhaust)
  show ?case
    using Suc.IH [of "b\<lparr>rd := l', buffered := buffered b @ bs\<rparr>"] r
    by (auto simp: Let_def split: option.splits)
qed

lemma fill_loop_progress:
  assumes "err b = None"
  shows "err (fill_loop i b) \<noteq> None \<or> length (buffered b) < length (buffered (fill_loop i b))"
  using assms
proof (induction i arbitrary: b)
  case 0
  then show ?case by simp
next
  case (Suc i)
  obtain bs e l' where r: "LimitedReader_Read (rd b) (defaultBufSize - length (buffered b)) = ((bs, e), l')"
    by (metis prod.exhaust)
  show ?case
    using Suc.IH [of "b\<lparr>rd := l', buffered := buffered b @ bs\<rparr>"] Suc.prems r
    by (auto simp: Let_def split: option.splits)
qed

lemma fill_loop_budget:
  "nat (N (rd (fill_loop i b))) + length (buffered (fill_loop i b)) = nat (N (rd b)) + length (buffered b)"
proof (induction i arbitrary: b)
  case 0
  then show ?case by simp
next
  case (Suc i)
  obtain bs e l' where r: "LimitedReader_Read (rd b) (defaultBufSize - length (buffered b)) = ((bs, e), l')"
    by (metis prod.exhaust)
  show ?case
    using Suc.IH [of "b\<lparr>rd := l', buffered := buffered b @ bs\<rparr>"] r LimitedReader_Read_budget [OF r]
    by (auto simp: Let_def split: option.splits)
qed

lemma fill_loop_not_full:
  assumes "err b \<noteq> Some ErrBufferFull"
  shows "err (fill_loop i b) \<noteq> Some ErrBufferFull"
  using assms
proof (induction i arbitrary: b)
  case 0
  then show ?case by simp
next
  case (Suc i)
  obtain bs e l' where r: "LimitedReader_Read (rd b) (defaultBufSize - length (buffered b)) = ((bs, e), l')"
    by (metis prod.exhaust)
  show ?case
    using Suc.IH [of "b\<lparr>rd := l', buffered := buffered b @ bs\<rparr>"] Suc.prems r
      LimitedReader_Read_not_full [OF r]
    by (auto simp: Let_def split: option.splits)
qed

text \<open>
  \<^verbatim>\<open>ReadSlice\<close>: search the buffer from \<open>s\<close> on; hand out the pending error or
  \<open>ErrBufferFull\<close> with what is buffered; otherwise fill and search the new bytes.
\<close>

function ReadSlice :: "Reader \<Rightarrow> char \<Rightarrow> nat \<Rightarrow> (string \<times> error option) \<times> Reader" where
  "ReadSlice b delim s =
     (case IndexByte (drop s (buffered b)) delim of
        Some i \<Rightarrow>
          ((take (i + s + 1) (buffered b), None), b\<lparr>buffered := drop (i + s + 1) (buffered b)\<rparr>)
      | None \<Rightarrow>
          (case err b of
             Some e \<Rightarrow> ((buffered b, Some e), b\<lparr>buffered := [], err := None\<rparr>)
           | None \<Rightarrow>
               if length (buffered b) \<ge> defaultBufSize
               then ((buffered b, Some ErrBufferFull), b\<lparr>buffered := []\<rparr>)
               else ReadSlice (fill b) delim (length (buffered b))))"
  by pat_completeness auto
termination
proof (relation "measure (\<lambda>(b, delim, s).
    (if err b = None then 1 else 0) + 2 * (defaultBufSize - length (buffered b)))")
  show "wf (measure (\<lambda>(b, delim, s).
    (if err b = None then 1 else 0) + 2 * (defaultBufSize - length (buffered b))))"
    by simp
next
  fix b :: Reader and delim :: char and s :: nat
  assume none: "err b = None" and room: "\<not> defaultBufSize \<le> length (buffered b)"
  from fill_loop_progress [OF none, of maxConsecutiveEmptyReads]
    fill_loop_grows [of b maxConsecutiveEmptyReads] room none
  show "((fill b, delim, length (buffered b)), (b, delim, s))
        \<in> measure (\<lambda>(b, delim, s).
            (if err b = None then 1 else 0) + 2 * (defaultBufSize - length (buffered b)))"
    by (auto simp: fill_def)
qed

declare ReadSlice.simps [simp del]

lemma ReadSlice_full_budget:
  assumes "ReadSlice b delim s = ((line, Some ErrBufferFull), b')"
  shows "nat (N (rd b')) + length (buffered b') + (if err b' = Some ErrBufferFull then 1 else 0)
         < nat (N (rd b)) + length (buffered b) + (if err b = Some ErrBufferFull then 1 else (0::nat))"
  using assms
proof (induction b delim s rule: ReadSlice.induct)
  case (1 b delim s)
  show ?case
  proof (cases "IndexByte (drop s (buffered b)) delim")
    case (Some i)
    with "1.prems" show ?thesis by (simp add: ReadSlice.simps [of b])
  next
    case None
    show ?thesis
    proof (cases "err b")
      case (Some e)
      with None "1.prems" show ?thesis by (auto simp: ReadSlice.simps [of b])
    next
      case noerr: None
      show ?thesis
      proof (cases "defaultBufSize \<le> length (buffered b)")
        case True
        with None noerr "1.prems" show ?thesis
          by (auto simp: ReadSlice.simps [of b] defaultBufSize_def)
      next
        case False
        with None noerr "1.prems"
        have rec: "ReadSlice (fill b) delim (length (buffered b)) = ((line, Some ErrBufferFull), b')"
          by (simp add: ReadSlice.simps [of b])
        from noerr have "err (fill b) \<noteq> Some ErrBufferFull"
          by (simp add: fill_def fill_loop_not_full)
        with "1.IH" [OF None noerr False rec] fill_loop_budget [of maxConsecutiveEmptyReads b] noerr
        show ?thesis by (simp add: fill_def)
      qed
    qed
  qed
qed

text \<open>
  \<^verbatim>\<open>collectFragments\<close>: call \<^verbatim>\<open>ReadSlice\<close> until it returns something other than
  \<open>ErrBufferFull\<close>, keeping the full buffers; \<^verbatim>\<open>ReadString\<close> joins them.
\<close>

function collectFragments :: "Reader \<Rightarrow> char \<Rightarrow> (string list \<times> string \<times> error option) \<times> Reader" where
  "collectFragments b delim =
     (case ReadSlice b delim 0 of
        ((frag, None), b') \<Rightarrow> (([], frag, None), b')
      | ((frag, Some e), b') \<Rightarrow>
          if e \<noteq> ErrBufferFull then (([], frag, Some e), b')
          else (case collectFragments b' delim of
                  ((full, frag', e'), b'') \<Rightarrow> ((frag # full, frag', e'), b'')))"
  by pat_completeness auto
termination
proof (relation "measure (\<lambda>(b, delim).
    nat (N (rd b)) + length (buffered b) + (if err b = Some ErrBufferFull then 1 else 0))")
  show "wf (measure (\<lambda>(b, delim).
    nat (N (rd b)) + length (buffered b) + (if err b = Some ErrBufferFull then 1 else 0)))"
    by simp
next
  fix b :: Reader and delim :: char and x1 :: "string \<times> error option" and b' :: Reader
    and frag :: string and eo :: "error option" and e :: error
  assume "(x1, b') = ReadSlice b delim 0" "(frag, eo) = x1" "eo = Some e" "\<not> e \<noteq> ErrBufferFull"
  then have "ReadSlice b delim 0 = ((frag, Some ErrBufferFull), b')" by simp
  from ReadSlice_full_budget [OF this]
  show "((b', delim), (b, delim))
        \<in> measure (\<lambda>(b, delim).
            nat (N (rd b)) + length (buffered b) + (if err b = Some ErrBufferFull then 1 else 0))"
    by simp
qed

declare collectFragments.simps [simp del]

definition ReadString :: "Reader \<Rightarrow> char \<Rightarrow> (string \<times> error option) \<times> Reader" where
  "ReadString b delim =
     (case collectFragments b delim of
        ((full, frag, e), b') \<Rightarrow> ((concat full @ frag, e), b'))"

section \<open>\<^verbatim>\<open>strings.TrimSpace\<close>\<close>

text \<open>
  \<^verbatim>\<open>strings.TrimSpace\<close> removes the leading and the trailing white space of a string,
  as \<^verbatim>\<open>unicode.IsSpace\<close> defines it: U+0009 to U+000D, U+0020, U+0085, U+00A0,
  U+1680, U+2000 to U+200A, U+2028, U+2029, U+202F, U+205F and U+3000. On the bytes of
  the string these are the following UTF-8 encodings; every other byte sequence decodes
  to a character that is not white space, or to no character at all.
\<close>

definition spaceEncodings :: "string list" where
  "spaceEncodings =
     [[CHR 0x09], [CHR 0x0A], [CHR 0x0B], [CHR 0x0C], [CHR 0x0D], [CHR 0x20],
      [CHR 0xC2, CHR 0x85], [CHR 0xC2, CHR 0xA0], [CHR 0xE1, CHR 0x9A, CHR 0x80],
      [CHR 0xE2, CHR 0x80, CHR 0x80], [CHR 0xE2, CHR 0x80, CHR 0x81],
      [CHR 0xE2, CHR 0x80, CHR 0x82], [CHR 0xE2, CHR 0x80, CHR 0x83],
      [CHR 0xE2, CHR 0x80, CHR 0x84], [CHR 0xE2, CHR 0x80, CHR 0x85],
      [CHR 0xE2, CHR 0x80, CHR 0x86], [CHR 0xE2, CHR 0x80, CHR 0x87],
      [CHR 0xE2, CHR 0x80, CHR 0x88], [CHR 0xE2, CHR 0x80, CHR 0x89],
      [CHR 0xE2, CHR 0x80, CHR 0x8A], [CHR 0xE2, CHR 0x80, CHR 0xA8],
      [CHR 0xE2, CHR 0x80, CHR 0xA9], [CHR 0xE2, CHR 0x80, CHR 0xAF],
      [CHR 0xE2, CHR 0x81, CHR 0x9F], [CHR 0xE3, CHR 0x80, CHR 0x80]]"

text \<open>The number of bytes of the white-space character a string starts with, or 0.\<close>

definition leadingSpace :: "string \<Rightarrow> nat" where
  "leadingSpace s =
     (case find (\<lambda>e. HasPrefix s e) spaceEncodings of None \<Rightarrow> 0 | Some e \<Rightarrow> length e)"

text \<open>The number of bytes of the white-space character a string ends with, or 0.\<close>

definition trailingSpace :: "string \<Rightarrow> nat" where
  "trailingSpace s =
     (case find (\<lambda>e. HasPrefix (rev s) (rev e)) spaceEncodings of None \<Rightarrow> 0 | Some e \<Rightarrow> length e)"

lemma leadingSpace_le: "leadingSpace s \<le> length s"
  by (auto simp: leadingSpace_def HasPrefix_def split: option.splits dest: find_Some_iff [THEN iffD1])

lemma trailingSpace_le: "trailingSpace s \<le> length s"
  by (auto simp: trailingSpace_def HasPrefix_def split: option.splits dest: find_Some_iff [THEN iffD1])

function TrimLeftSpace :: "string \<Rightarrow> string" where
  "TrimLeftSpace s = (if leadingSpace s = 0 then s else TrimLeftSpace (drop (leadingSpace s) s))"
  by pat_completeness auto
termination
proof (relation "measure length")
  show "wf (measure length)" by simp
next
  fix s :: string
  assume "leadingSpace s \<noteq> 0"
  with leadingSpace_le [of s] show "(drop (leadingSpace s) s, s) \<in> measure length"
    by simp
qed

function TrimRightSpace :: "string \<Rightarrow> string" where
  "TrimRightSpace s =
     (if trailingSpace s = 0 then s else TrimRightSpace (take (length s - trailingSpace s) s))"
  by pat_completeness auto
termination
proof (relation "measure length")
  show "wf (measure length)" by simp
next
  fix s :: string
  assume "trailingSpace s \<noteq> 0"
  with trailingSpace_le [of s] show "(take (length s - trailingSpace s) s, s) \<in> measure length"
    by simp
qed

declare TrimLeftSpace.simps [simp del] TrimRightSpace.simps [simp del]

definition TrimSpace :: "string \<Rightarrow> string" where
  "TrimSpace s = TrimRightSpace (TrimLeftSpace s)"

section \<open>The protocol handler (\<^verbatim>\<open>internal/app/handler.go\<close>)\<close>

text \<open>
  Modelled from the spec: the constants \<^verbatim>\<open>PrefixChallenge\<close>, \<^verbatim>\<open>PrefixError\<close> and
  \<^verbatim>\<open>PrefixQuote\<close> of the package \<^verbatim>\<open>pkg/protocol\<close>, whose source is not among the
  files; the wire protocol of the specification gives the lines as
  \<^verbatim>\<open>CHALLENGE:<token>\<close>, \<^verbatim>\<open>ERROR:<message>\<close> and \<^verbatim>\<open>QUOTE:<text>\<close>.
\<close>

definition PrefixChallenge :: string where
  "PrefixChallenge = ''CHALLENGE:''"

definition PrefixError :: string where
  "PrefixError = ''ERROR:''"

definition PrefixQuote :: string where
  "PrefixQuote = ''QUOTE:''"

definition InvalidMsg :: string where
  "InvalidMsg = ''Invalid PoW solution''"

definition maxReadSize :: int where
  "maxReadSize = 1024"

definition newline :: char where
  "newline = CHR 0x0A"

text \<open>
  The interfaces \<^verbatim>\<open>powChallenge\<close> and \<^verbatim>\<open>quoteProvider\<close> of
  \<^verbatim>\<open>internal/app/types.go\<close>: an object is its state and its methods, and a method
  that changes the object returns the new state. A method may panic.
\<close>

record 'p powChallenge =
  pc_self :: 'p
  pc_GenerateChallenge :: "'p \<Rightarrow> string \<times> 'p"
  pc_ValidateChallenge :: "'p \<Rightarrow> string \<Rightarrow> string \<Rightarrow> panic + bool"

record 'q quoteProvider =
  qp_self :: 'q
  qp_GetQuote :: "'q \<Rightarrow> (panic + string) \<times> 'q"

text \<open>
  The calls a handler has made to its collaborators, in order, as the mocks of
  \<^verbatim>\<open>handler_test.go\<close> record them.
\<close>

datatype call = CallGenerateChallenge | CallValidateChallenge string string | CallGetQuote

record ('p, 'q) H =
  quoteProvider :: "'q quoteProvider"
  powChallenge :: "'p powChallenge"
  calls :: "call list"

definition NewHandler :: "'q quoteProvider \<Rightarrow> 'p powChallenge \<Rightarrow> ('p, 'q) H" where
  "NewHandler qp pc = \<lparr>quoteProvider = qp, powChallenge = pc, calls = []\<rparr>"

text \<open>How a call of the handler ends: it returns an error or \<^verbatim>\<open>nil\<close>, or it panics.\<close>

datatype hresult = Returned "error option" | Panicked panic

text \<open>
  \<^verbatim>\<open>_, err := fmt.Fprintln(conn, message)\<close>: one \<^verbatim>\<open>Write\<close> of the message and a
  newline. An error is wrapped as \<^verbatim>\<open>failed to send message: %w\<close>.
\<close>

definition sendMessage :: "Conn \<Rightarrow> string \<Rightarrow> error option \<times> Conn" where
  "sendMessage conn message =
     (case Conn_Write conn (message @ [newline]) of
        (Some e, conn') \<Rightarrow> (Some (Wrapped ''failed to send message: '' e), conn')
      | (None, conn') \<Rightarrow> (None, conn'))"

text \<open>
  \<^verbatim>\<open>limitedReader := io.LimitedReader{R: conn, N: maxReadSize}\<close>,
  \<^verbatim>\<open>reader := bufio.NewReader(&limitedReader)\<close>,
  \<^verbatim>\<open>solution, err := reader.ReadString('\n')\<close>; on an error the result is the empty
  string and the error, otherwise \<^verbatim>\<open>strings.TrimSpace(solution)\<close>.
\<close>

definition readClientResponse :: "Conn \<Rightarrow> (string \<times> error option) \<times> Conn" where
  "readClientResponse conn =
     (let limitedReader = \<lparr>R = conn, N = maxReadSize\<rparr>;
          reader = NewReader limitedReader
      in case ReadString reader newline of
           ((solution, Some e), reader') \<Rightarrow> (([], Some e), R (rd reader'))
         | ((solution, None), reader') \<Rightarrow> ((TrimSpace solution, None), R (rd reader')))"

definition HandleConnection :: "('p, 'q) H \<Rightarrow> Conn \<Rightarrow> hresult \<times> ('p, 'q) H \<times> Conn" where
  "HandleConnection h conn =
     (let (challenge, p1) = pc_GenerateChallenge (powChallenge h) (pc_self (powChallenge h));
          h1 = h\<lparr>powChallenge := (powChallenge h)\<lparr>pc_self := p1\<rparr>,
                 calls := calls h @ [CallGenerateChallenge]\<rparr>
      in case sendMessage conn (PrefixChallenge @ challenge) of
           (Some e, c1) \<Rightarrow> (Returned (Some (Wrapped ''failed to send challenge: '' e)), h1, c1)
         | (None, c1) \<Rightarrow>
             (case readClientResponse c1 of
                ((solution, Some e), c2) \<Rightarrow>
                  (Returned (Some (Wrapped ''failed to read client response: '' e)), h1, c2)
              | ((solution, None), c2) \<Rightarrow>
                  (let h2 = h1\<lparr>calls := calls h1 @ [CallValidateChallenge challenge solution]\<rparr>
                   in case pc_ValidateChallenge (powChallenge h2) (pc_self (powChallenge h2))
                             challenge solution of
                        Inl p \<Rightarrow> (Panicked p, h2, c2)
                      | Inr valid \<Rightarrow>
                          if \<not> valid then
                            (case sendMessage c2 (PrefixError @ InvalidMsg) of
                               (Some e, c3) \<Rightarrow>
                                 (Returned (Some (Wrapped ''failed to send validate: '' e)), h2, c3)
                             | (None, c3) \<Rightarrow> (Returned None, h2, c3))
                          else
                            (case qp_GetQuote (quoteProvider h2) (qp_self (quoteProvider h2)) of
                               (Inl p, q') \<Rightarrow>
                                 (Panicked p,
                                  h2\<lparr>quoteProvider := (quoteProvider h2)\<lparr>qp_self := q'\<rparr>,
                                     calls := calls h2 @ [CallGetQuote]\<rparr>, c2)
                             | (Inr quote, q') \<Rightarrow>
                                 (let h3 = h2\<lparr>quoteProvider := (quoteProvider h2)\<lparr>qp_self := q'\<rparr>,
                                               calls := calls h2 @ [CallGetQuote]\<rparr>
                                  in case sendMessage c2 (PrefixQuote @ quote) of
                                       (Some e, c3) \<Rightarrow>
                                         (Returned (Some (Wrapped ''failed to send quote: '' e)), h3, c3)
                                     | (None, c3) \<Rightarrow> (Returned None, h3, c3))))))"

text \<open>The engine and the payload source of the repository as such objects.\<close>

definition powObject :: "SHA256PoW \<Rightarrow> SHA256PoW powChallenge" where
  "powObject p =
     \<lparr>pc_self = p, pc_GenerateChallenge = GenerateChallenge, pc_ValidateChallenge = ValidateChallenge\<rparr>"

definition quoteObject :: "RandomQuoteProvider \<Rightarrow> RandomQuoteProvider quoteProvider" where
  "quoteObject q = \<lparr>qp_self = q, qp_GetQuote = GetQuote\<rparr>"

section \<open>The connection manager (type \<^verbatim>\<open>Server\<close> of package \<^verbatim>\<open>app\<close>)\<close>

text \<open>
  \<^verbatim>\<open>config.Config\<close>; a \<^verbatim>\<open>time.Duration\<close> is a number of nanoseconds.
\<close>

record Config =
  Port :: string
  MaxConnections :: int
  ConnectionTimeout :: int
  ShutdownTimeout :: int
  RateLimitEvery100MS :: int

definition Millisecond :: int where
  "Millisecond = 1000000"

definition MsgOnManyReq :: string where
  "MsgOnManyReq = ''Too many requests. Please try again later.'' @ [newline]"

definition MsgOnErrInternal :: string where
  "MsgOnErrInternal = ''Internal server error. Please try again later.'' @ [newline]"

text \<open>
  A \<^verbatim>\<open>rate.Limiter\<close>, by the arguments of \<^verbatim>\<open>rate.NewLimiter(rate.Every(d), b)\<close>:
  one token every \<open>every\<close> nanoseconds, at most \<open>burst\<close> tokens. Whether a token is
  there when \<^verbatim>\<open>Allow\<close> is called depends on the clock, so the verdict of each call
  is an input of the model; \<open>allowCalls\<close> counts the calls.
\<close>

record Limiter =
  every :: int
  burst :: int
  allowCalls :: nat

definition NewLimiter :: "int \<Rightarrow> int \<Rightarrow> Limiter" where
  "NewLimiter d b = \<lparr>every = d, burst = b, allowCalls = 0\<rparr>"

datatype level = InfoLevel | WarnLevel | ErrorLevel | FatalLevel

record Listener =
  closedL :: bool

text \<open>
  The server. \<open>listener\<close> is \<^verbatim>\<open>nil\<close> until \<^verbatim>\<open>Start\<close> has bound it; \<open>ctxDone\<close> says
  that the lifecycle context is cancelled; \<open>wg\<close> is the counter of the wait group;
  \<open>semaphore\<close> is the number of tokens in the channel, whose capacity is
  \<open>MaxConnections\<close>; \<open>shutdownOnce\<close> says that the \<^verbatim>\<open>sync.Once\<close> is used up. The
  \<^verbatim>\<open>sync.Map\<close> \<open>limiterMap\<close> maps an address to a reference to a limiter in \<open>heap\<close>,
  where \<open>nextRef\<close> is the next free reference. \<open>logger\<close> is the log written so far.
\<close>

record Server =
  listener :: "Listener option"
  ctxDone :: bool
  wg :: int
  semaphore :: nat
  shutdownOnce :: bool
  config :: Config
  handler :: "Conn \<Rightarrow> hresult \<times> Conn"
  logger :: "(level \<times> string) list"
  limiterMap :: "string \<rightharpoonup> nat"
  heap :: "nat \<rightharpoonup> Limiter"
  nextRef :: nat

definition logf :: "level \<Rightarrow> string \<Rightarrow> Server \<Rightarrow> Server" where
  "logf l m s = s\<lparr>logger := logger s @ [(l, m)]\<rparr>"

text \<open>
  \<^verbatim>\<open>semaphore: make(chan struct{}, c.MaxConnections)\<close> panics on a negative size.
\<close>

definition NewServer :: "Config \<Rightarrow> (Conn \<Rightarrow> hresult \<times> Conn) \<Rightarrow> panic + Server" where
  "NewServer c h =
     (if MaxConnections c < 0 then Inl (Panic ''makechan: size out of range'')
      else Inr \<lparr>listener = None, ctxDone = False, wg = 0, semaphore = 0, shutdownOnce = False,
                 config = c, handler = h, logger = [], limiterMap = Map.empty, heap = Map.empty,
                 nextRef = 0\<rparr>)"

definition capacity :: "Server \<Rightarrow> nat" where
  "capacity s = nat (MaxConnections (config s))"

text \<open>
  \<^verbatim>\<open>limiter, loaded := s.limiterMap.LoadOrStore(ip, rate.NewLimiter(rate.Every(100*time.Millisecond), s.config.RateLimitEvery100MS))\<close>:
  the new limiter is allocated before the map is consulted, and \<^verbatim>\<open>LoadOrStore\<close>
  stores it only if the address has none, in one atomic step.
\<close>

definition LoadOrStore :: "('k \<rightharpoonup> 'v) \<Rightarrow> 'k \<Rightarrow> 'v \<Rightarrow> ('v \<times> bool) \<times> ('k \<rightharpoonup> 'v)" where
  "LoadOrStore m k v = (case m k of Some actual \<Rightarrow> ((actual, True), m) | None \<Rightarrow> ((v, False), m(k \<mapsto> v)))"

definition getLimiterForIP :: "Server \<Rightarrow> string \<Rightarrow> nat \<times> Server" where
  "getLimiterForIP s ip =
     (let new = nextRef s;
          s1 = s\<lparr>heap := (heap s)(new \<mapsto> NewLimiter (100 * Millisecond) (RateLimitEvery100MS (config s))),
                 nextRef := new + 1\<rparr>;
          ((limiter, loaded), m) = LoadOrStore (limiterMap s1) ip new;
          s2 = s1\<lparr>limiterMap := m\<rparr>
      in if \<not> loaded then (limiter, logf InfoLevel (''Created new rate limiter for IP: '' @ ip) s2)
         else (limiter, s2))"

text \<open>\<^verbatim>\<open>limiter.Allow()\<close> on the limiter at \<open>ref\<close>, with the verdict the clock gives.\<close>

definition Limiter_Allow :: "Server \<Rightarrow> nat \<Rightarrow> bool \<Rightarrow> bool \<times> Server" where
  "Limiter_Allow s ref verdict =
     (verdict,
      s\<lparr>heap := (case heap s ref of
                    None \<Rightarrow> heap s
                  | Some l \<Rightarrow> (heap s)(ref \<mapsto> l\<lparr>allowCalls := allowCalls l + 1\<rparr>))\<rparr>)"

text \<open>
  The body of \<^verbatim>\<open>handleClient\<close>, up to its return or panic. The type assertion
  \<^verbatim>\<open>conn.RemoteAddr().(*net.TCPAddr)\<close> panics on another kind of address. \<open>now\<close> is
  \<^verbatim>\<open>time.Now()\<close>.
\<close>

definition handleClient_body :: "Server \<Rightarrow> Conn \<Rightarrow> bool \<Rightarrow> int \<Rightarrow> panic option \<times> Server \<times> Conn" where
  "handleClient_body s conn verdict now =
     (case remoteAddr conn of
        OtherAddr a \<Rightarrow> (Some (Panic ''interface conversion: net.Addr is not *net.TCPAddr''), s, conn)
      | TCPAddr ip port \<Rightarrow>
          (let (limiter, s1) = getLimiterForIP s ip;
               (allowed, s2) = Limiter_Allow s1 limiter verdict
           in if \<not> allowed then
                (let (e, conn1) = Conn_Write conn MsgOnManyReq in (None, s2, conn1))
              else
                (let (e, conn1) = Conn_SetDeadline conn (now + ConnectionTimeout (config s2));
                     s3 = (case e of
                             Some x \<Rightarrow> logf ErrorLevel (''Failed to set deadline for client '' @ ip @ '': '' @ errorString x) s2
                           | None \<Rightarrow> s2)
                 in case handler s3 conn1 of
                      (Returned None, conn2) \<Rightarrow> (None, s3, conn2)
                    | (Returned (Some x), conn2) \<Rightarrow>
                        (None, logf ErrorLevel (''Error handling client '' @ ip @ '': '' @ errorString x) s3, conn2)
                    | (Panicked p, conn2) \<Rightarrow> (Some p, s3, conn2))))"

text \<open>
  \<^verbatim>\<open>recoverPanic\<close>, run as a deferred call with the panic in flight, if any: it
  recovers the panic, logs it (the stack trace is left out of the message) and writes
  \<open>MsgOnErrInternal\<close> to the connection.
\<close>

fun panicString :: "panic \<Rightarrow> string" where
  "panicString (Panic m) = m"

definition recoverPanic :: "Server \<Rightarrow> string \<Rightarrow> Conn \<Rightarrow> panic option \<Rightarrow> panic option \<times> Server \<times> Conn" where
  "recoverPanic s funcName conn r =
     (case r of
        None \<Rightarrow> (None, s, conn)
      | Some p \<Rightarrow>
          (let s1 = logf ErrorLevel (''Panic recovered in '' @ funcName @ '': '' @ panicString p) s;
               (e, conn1) = Conn_Write conn MsgOnErrInternal
           in (None, s1, conn1)))"

text \<open>
  How the goroutine of a unit ends: it returns, it dies of a panic nobody recovered (and
  the process with it), or it blocks for ever.
\<close>

datatype exit = Exited | Crashed panic | Blocked

text \<open>
  \<^verbatim>\<open>handleClient\<close>: the body, then the deferred calls, last deferred first:
  \<^verbatim>\<open>s.recoverPanic("handleClient", conn)\<close>, \<^verbatim>\<open><-s.semaphore\<close> (which blocks on an
  empty channel), \<^verbatim>\<open>conn.Close()\<close> and \<^verbatim>\<open>s.wg.Done()\<close>.
\<close>

definition handleClient :: "Server \<Rightarrow> Conn \<Rightarrow> bool \<Rightarrow> int \<Rightarrow> exit \<times> Server \<times> Conn" where
  "handleClient s conn verdict now =
     (let (r, s1, c1) = handleClient_body s conn verdict now;
          (r', s2, c2) = recoverPanic s1 ''handleClient'' c1 r
      in if semaphore s2 = 0 then (Blocked, s2, c2)
         else
           (let s3 = s2\<lparr>semaphore := semaphore s2 - 1\<rparr>;
                c3 = Conn_Close c2;
                s4 = s3\<lparr>wg := wg s3 - 1\<rparr>
            in (case r' of None \<Rightarrow> Exited | Some p \<Rightarrow> Crashed p, s4, c3)))"

text \<open>
  The server and its goroutines: the units of work spawned and not yet finished, each
  with its connection, the connections turned away, whether the accept loop still runs,
  and whether the process has died.
\<close>

record System =
  srv :: Server
  running :: "Conn list"
  rejected :: "Conn list"
  finished :: "Conn list"
  accepting :: bool
  crashed :: bool

text \<open>\<^verbatim>\<open>strings.Contains\<close>\<close>

fun Contains :: "string \<Rightarrow> string \<Rightarrow> bool" where
  "Contains [] sub = (sub = [])"
| "Contains (x # xs) sub = (HasPrefix (x # xs) sub \<or> Contains xs sub)"

datatype accepted = Accepted Conn | AcceptError string

text \<open>
  One round of the loop of \<^verbatim>\<open>acceptConnections\<close>, on what \<^verbatim>\<open>Accept\<close> returned. On
  an error the loop ends if the context is cancelled or the listener is closed, and goes
  on otherwise. A connection gets a slot by the non-blocking send
  \<^verbatim>\<open>s.semaphore <- struct{}{}\<close>, possible while the channel is not full; then
  \<^verbatim>\<open>s.wg.Add(1)\<close> and \<^verbatim>\<open>go s.handleClient(conn)\<close>. In the \<^verbatim>\<open>default\<close> case the
  connection is closed.
\<close>

definition acceptOne :: "System \<Rightarrow> accepted \<Rightarrow> System" where
  "acceptOne sys a =
     (case a of
        AcceptError m \<Rightarrow>
          if ctxDone (srv sys) then
            sys\<lparr>srv := logf InfoLevel ''Server is shutting down, stopping connection handling...'' (srv sys),
                accepting := False\<rparr>
          else if Contains m ''use of closed network connection'' then
            sys\<lparr>srv := logf InfoLevel ''Listener closed, stopping connection handling...'' (srv sys),
                accepting := False\<rparr>
          else sys\<lparr>srv := logf ErrorLevel (''Failed to accept connection: '' @ m) (srv sys)\<rparr>
      | Accepted conn \<Rightarrow>
          if semaphore (srv sys) < capacity (srv sys) then
            sys\<lparr>srv := (srv sys)\<lparr>semaphore := semaphore (srv sys) + 1, wg := wg (srv sys) + 1\<rparr>,
                running := running sys @ [conn]\<rparr>
          else
            sys\<lparr>srv := logf WarnLevel ''Too many connections. Rejecting client.'' (srv sys),
                rejected := rejected sys @ [Conn_Close conn]\<rparr>)"

text \<open>
  \<^verbatim>\<open>Shutdown\<close>: the body runs under \<^verbatim>\<open>s.shutdownOnce.Do\<close>, which marks the
  \<^verbatim>\<open>Once\<close> used even if the body panics. The body closes the listener (a \<^verbatim>\<open>nil\<close>
  listener is a panic, a closed one an error that is logged), waits for the wait group
  or for \<open>ShutdownTimeout\<close>, whichever comes first, and cancels the context. Which of
  the two comes first is an input.
\<close>

datatype drain = Drained | TimedOut

definition Listener_Close :: "Listener \<Rightarrow> error option \<times> Listener" where
  "Listener_Close l =
     (if closedL l then (Some (OpError ''use of closed network connection''), l)
      else (None, l\<lparr>closedL := True\<rparr>))"

text \<open>\<^verbatim>\<open>s.listener.Close()\<close>, with its error logged.\<close>

definition closeListener :: "Server \<Rightarrow> panic + Server" where
  "closeListener s =
     (case listener s of
        None \<Rightarrow> Inl (Panic ''invalid memory address or nil pointer dereference'')
      | Some l \<Rightarrow>
          (let (e, l') = Listener_Close l;
               s' = s\<lparr>listener := Some l'\<rparr>
           in case e of
                Some x \<Rightarrow> Inr (logf ErrorLevel (''Error closing listener: '' @ errorString x) s')
              | None \<Rightarrow> Inr s'))"

text \<open>The \<^verbatim>\<open>select\<close> between the drained wait group and the timeout.\<close>

definition waitDrain :: "Server \<Rightarrow> drain \<Rightarrow> Server" where
  "waitDrain s d =
     (case d of
        Drained \<Rightarrow> logf InfoLevel ''All connections closed. Server stopped.'' s
      | TimedOut \<Rightarrow> logf WarnLevel ''Shutdown timeout reached. Forcing termination.'' s)"

text \<open>\<^verbatim>\<open>s.cancel()\<close>\<close>

definition cancel :: "Server \<Rightarrow> Server" where
  "cancel s = s\<lparr>ctxDone := True\<rparr>"

definition Shutdown_body :: "Server \<Rightarrow> drain \<Rightarrow> panic option \<times> Server" where
  "Shutdown_body s d =
     (let s1 = logf InfoLevel ''Shutting down server...'' s
      in case closeListener s1 of
           Inl p \<Rightarrow> (Some p, s1)
         | Inr s2 \<Rightarrow> (None, cancel (waitDrain s2 d)))"

definition Shutdown :: "Server \<Rightarrow> drain \<Rightarrow> panic option \<times> Server" where
  "Shutdown s d =
     (if shutdownOnce s then (None, s)
      else (let (r, s') = Shutdown_body s d in (r, s'\<lparr>shutdownOnce := True\<rparr>)))"

text \<open>
  \<^verbatim>\<open>Start\<close> up to the start of the accept loop: \<^verbatim>\<open>net.Listen\<close> binds the listener,
  or fails, and then \<^verbatim>\<open>Fatalf\<close> ends the process.
\<close>

definition Start :: "System \<Rightarrow> bool \<Rightarrow> System" where
  "Start sys bound =
     (if \<not> bound then
        sys\<lparr>srv := logf FatalLevel ''Failed to start server'' (srv sys), crashed := True\<rparr>
      else
        sys\<lparr>srv := logf InfoLevel (''Server started on port '' @ Port (config (srv sys)))
                      ((srv sys)\<lparr>listener := Some \<lparr>closedL = False\<rparr>\<rparr>),
            accepting := True\<rparr>)"

text \<open>
  What can happen next in a running system: \<^verbatim>\<open>Accept\<close> returns, while the accept loop
  runs (a connection only while the listener is open); the unit at some index runs
  \<^verbatim>\<open>handleClient\<close> to its end; \<^verbatim>\<open>Shutdown\<close> is called; a termination signal cancels
  the context, on which \<^verbatim>\<open>Start\<close> calls \<^verbatim>\<open>Shutdown\<close>.
\<close>

datatype action =
    Accept accepted
  | Finish nat bool int
  | CallShutdown drain
  | Signal drain

definition listening :: "Server \<Rightarrow> bool" where
  "listening s = (case listener s of None \<Rightarrow> False | Some l \<Rightarrow> \<not> closedL l)"

fun step :: "System \<Rightarrow> action \<Rightarrow> System" where
  "step sys (Accept a) =
     (if \<not> accepting sys then sys
      else case a of
             Accepted conn \<Rightarrow> if listening (srv sys) then acceptOne sys a else sys
           | AcceptError m \<Rightarrow> acceptOne sys a)"
| "step sys (Finish i verdict now) =
     (if i < length (running sys) then
        (case handleClient (srv sys) (running sys ! i) verdict now of
           (Exited, s', c') \<Rightarrow>
             sys\<lparr>srv := s', running := take i (running sys) @ drop (Suc i) (running sys),
                 finished := finished sys @ [c']\<rparr>
         | (Crashed p, s', c') \<Rightarrow> sys\<lparr>srv := s', crashed := True\<rparr>
         | (Blocked, s', c') \<Rightarrow> sys\<lparr>srv := s'\<rparr>)
      else sys)"
| "step sys (CallShutdown d) =
     (case Shutdown (srv sys) d of
        (None, s') \<Rightarrow> sys\<lparr>srv := s'\<rparr>
      | (Some p, s') \<Rightarrow> sys\<lparr>srv := s', crashed := True\<rparr>)"
| "step sys (Signal d) =
     (case Shutdown ((srv sys)\<lparr>ctxDone := True\<rparr>) d of
        (None, s') \<Rightarrow> sys\<lparr>srv := s'\<rparr>
      | (Some p, s') \<Rightarrow> sys\<lparr>srv := s', crashed := True\<rparr>)"

definition run :: "System \<Rightarrow> action list \<Rightarrow> System" where
  "run sys acts = foldl step sys acts"

text \<open>The system after \<^verbatim>\<open>NewServer\<close> and a successful \<^verbatim>\<open>Start\<close>.\<close>

definition started :: "Server \<Rightarrow> System" where
  "started s =
     Start \<lparr>srv = s, running = [], rejected = [], finished = [], accepting = False, crashed = False\<rparr> True"

section \<open>Properties of the proof-of-work engine\<close>

lemma Repeat_zero_char:
  "0 \<le> n \<Longrightarrow> n \<le> maxAlloc \<Longrightarrow> Repeat ''0'' n = Inr (replicate (nat n) CHR ''0'')"
  by (auto simp: Repeat_def maxAlloc_def maxInt_def)

lemma Repeat_zero_char_panics:
  "maxAlloc < n \<Longrightarrow> n \<le> maxInt \<Longrightarrow>
     Repeat ''0'' n = Inl (Panic ''runtime error: makeslice: len out of range'')"
  by (auto simp: Repeat_def maxAlloc_def maxInt_def)

lemma Repeat_zero_char_fails: "maxAlloc < n \<Longrightarrow> \<exists>e. Repeat ''0'' n = Inl e"
  by (auto simp: Repeat_def maxAlloc_def maxInt_def)

text \<open>A digest has 32 bytes, and 64 hexadecimal digits.\<close>

lemma rounds_length: "length st = 8 \<Longrightarrow> length (rounds st ks ws) = 8"
  by (induction st ks ws rule: rounds.induct) (simp_all add: Let_def)

lemma block_length: "length h = 8 \<Longrightarrow> length (block h p) = 8"
  by (simp add: block_def rounds_length)

lemma blocks_length: "length h = 8 \<Longrightarrow> length (blocks h p) = 8"
proof (induction h p rule: blocks.induct)
  case (1 h p)
  show ?case
  proof (cases "length p < 64")
    case True
    with "1.prems" show ?thesis by (subst blocks.simps) (simp del: blocks.simps)
  next
    case False
    with "1.IH" [OF False] "1.prems" show ?thesis
      by (subst blocks.simps) (simp add: block_length del: blocks.simps)
  qed
qed

lemma concat_words_length:
  "length (concat (map (\<lambda>w. map (g w) [0..<4]) ws)) = 4 * length ws"
  by (induction ws) simp_all

lemma init256_length: "length init256 = 8"
  by (simp add: init256_def)

lemma Sum256_length: "length (Sum256 x) = 32"
  unfolding Sum256_def Let_def concat_words_length
  by (simp only: blocks_length [OF init256_length])

lemma EncodeToString_length: "length (EncodeToString src) = 2 * length src"
  by (induction src) (simp_all add: EncodeToString_def)

lemma leadingZeros_digest: "leadingZeros (EncodeToString (Sum256 x)) \<le> 64"
proof -
  have "leadingZeros (EncodeToString (Sum256 x)) \<le> length (EncodeToString (Sum256 x))"
    unfolding leadingZeros_def by (rule length_takeWhile_le)
  then show ?thesis by (simp add: EncodeToString_length Sum256_length)
qed

lemma HasPrefix_replicate:
  "HasPrefix s (replicate n c) \<longleftrightarrow> n \<le> length (takeWhile (\<lambda>x. x = c) s)"
proof (induction s arbitrary: n)
  case Nil
  then show ?case by (simp add: HasPrefix_def)
next
  case (Cons a s)
  show ?case
  proof (cases n)
    case 0
    then show ?thesis by (simp add: HasPrefix_def)
  next
    case (Suc m)
    have "HasPrefix (a # s) (replicate (Suc m) c) \<longleftrightarrow> a = c \<and> HasPrefix s (replicate m c)"
      by (auto simp: HasPrefix_def)
    with Cons.IH [of m] Suc show ?thesis by simp
  qed
qed

lemma ValidateChallenge_returns:
  assumes "0 \<le> difficulty p" and "difficulty p \<le> maxAlloc"
  shows "ValidateChallenge p challenge solution =
           Inr (nat (difficulty p) \<le> leadingZeros (EncodeToString (Sum256 (challenge @ solution))))"
  using assms
  by (simp add: ValidateChallenge_def Repeat_zero_char HasPrefix_replicate leadingZeros_def)

text \<open>A digest, evaluated from the definitions: the SHA-256 of the five bytes \<open>88484\<close>.\<close>

lemma Sum256_88484:
  "EncodeToString (Sum256 ''88484'') =
     ''0000a456e7b5a5eb059e721fb431436883143101275c4077f83fe70298f5623d''"
  by code_simp

text \<open>
  C1, as amended. For every difficulty \<open>N \<ge> 0\<close> and every challenge and solution,
  \<open>ValidateChallenge\<close> returns true exactly if the hexadecimal SHA-256 digest of the
  concatenation of challenge and solution (in that order, no separator) has at least
  \<open>N\<close> leading \<open>0\<close> characters, of which it has at most 64. If it has fewer,
  \<open>ValidateChallenge\<close> returns false for every \<open>N\<close> up to 64, and for a greater \<open>N\<close>
  whenever \<^verbatim>\<open>strings.Repeat\<close> returns the prefix of \<open>N\<close> zeros; when \<open>N\<close> exceeds the
  allocation limit \<^verbatim>\<open>strings.Repeat\<close> panics, and \<open>ValidateChallenge\<close> with it.
\<close>

theorem ValidateChallenge_leading_zeros:
  assumes "0 \<le> difficulty p"
  shows "(ValidateChallenge p challenge solution = Inr True
           \<longleftrightarrow> nat (difficulty p) \<le> leadingZeros (EncodeToString (Sum256 (challenge @ solution))))
         \<and> (difficulty p \<le> 64 \<longrightarrow>
               ValidateChallenge p challenge solution =
                 Inr (nat (difficulty p) \<le> leadingZeros (EncodeToString (Sum256 (challenge @ solution)))))
         \<and> (\<forall>zeros. Repeat ''0'' (difficulty p) = Inr zeros \<longrightarrow>
               ValidateChallenge p challenge solution =
                 Inr (nat (difficulty p) \<le> leadingZeros (EncodeToString (Sum256 (challenge @ solution)))))
         \<and> (maxAlloc < difficulty p \<and> difficulty p \<le> maxInt \<longrightarrow>
               ValidateChallenge p challenge solution =
                 Inl (Panic ''runtime error: makeslice: len out of range''))"
proof -
  let ?z = "leadingZeros (EncodeToString (Sum256 (challenge @ solution)))"
  have small: "ValidateChallenge p challenge solution = Inr (nat (difficulty p) \<le> ?z)"
    if "difficulty p \<le> maxAlloc"
    using assms that by (rule ValidateChallenge_returns)
  have large: "\<exists>e. ValidateChallenge p challenge solution = Inl e \<and> Repeat ''0'' (difficulty p) = Inl e"
    if "maxAlloc < difficulty p"
    using Repeat_zero_char_fails [OF that] by (auto simp: ValidateChallenge_def)
  have far: "\<not> nat (difficulty p) \<le> ?z" if "maxAlloc < difficulty p"
    using that leadingZeros_digest [of "challenge @ solution"] by (simp add: maxAlloc_def)
  have iff: "ValidateChallenge p challenge solution = Inr True \<longleftrightarrow> nat (difficulty p) \<le> ?z"
  proof (cases "difficulty p \<le> maxAlloc")
    case True
    then show ?thesis by (simp add: small)
  next
    case False
    with large [of] far show ?thesis by auto
  qed
  have upto64: "ValidateChallenge p challenge solution = Inr (nat (difficulty p) \<le> ?z)"
    if "difficulty p \<le> 64"
    using that by (intro small) (simp add: maxAlloc_def)
  have returns: "ValidateChallenge p challenge solution = Inr (nat (difficulty p) \<le> ?z)"
    if "Repeat ''0'' (difficulty p) = Inr zeros" for zeros
  proof (cases "difficulty p \<le> maxAlloc")
    case True
    then show ?thesis by (rule small)
  next
    case False
    with large that show ?thesis by auto
  qed
  have panics: "ValidateChallenge p challenge solution
      = Inl (Panic ''runtime error: makeslice: len out of range'')"
    if "maxAlloc < difficulty p" "difficulty p \<le> maxInt"
    using Repeat_zero_char_panics [OF that] by (simp add: ValidateChallenge_def)
  from iff upto64 returns panics show ?thesis by blast
qed

theorem ValidateChallenge_leading_zeros_witness:
  "(0::int) \<le> 4
   \<and> leadingZeros (EncodeToString (Sum256 (''88'' @ ''484''))) = 4
   \<and> ValidateChallenge (NewSHA256PoW 4 (seededRand 1)) ''88'' ''484'' = Inr True
   \<and> ValidateChallenge (NewSHA256PoW 5 (seededRand 1)) ''88'' ''484'' = Inr False
   \<and> ValidateChallenge (NewSHA256PoW (2 ^ 48 + 1) (seededRand 1)) ''88'' ''484''
       = Inl (Panic ''runtime error: makeslice: len out of range'')"
proof -
  have z: "leadingZeros (EncodeToString (Sum256 (''88'' @ ''484''))) = 4"
    by (simp add: Sum256_88484 leadingZeros_def)
  have "ValidateChallenge (NewSHA256PoW 4 (seededRand 1)) ''88'' ''484'' = Inr True"
    using ValidateChallenge_leading_zeros [of "NewSHA256PoW 4 (seededRand 1)" "''88''" "''484''"] z
    by (simp add: NewSHA256PoW_def)
  moreover have "ValidateChallenge (NewSHA256PoW 5 (seededRand 1)) ''88'' ''484'' = Inr False"
    using ValidateChallenge_leading_zeros [of "NewSHA256PoW 5 (seededRand 1)" "''88''" "''484''"] z
    by (simp add: NewSHA256PoW_def)
  moreover have "ValidateChallenge (NewSHA256PoW (2 ^ 48 + 1) (seededRand 1)) ''88'' ''484''
      = Inl (Panic ''runtime error: makeslice: len out of range'')"
    using ValidateChallenge_leading_zeros [of "NewSHA256PoW (2 ^ 48 + 1) (seededRand 1)" "''88''" "''484''"]
    by (simp add: NewSHA256PoW_def maxAlloc_def maxInt_def)
  ultimately show ?thesis using z by simp
qed

text \<open>
  The claim as stated fails: at difficulty \<open>2^62\<close> the digest of \<open>88484\<close> has fewer
  leading zeros than the difficulty asks for, and \<open>ValidateChallenge\<close> does not return
  false: it panics.
\<close>

theorem ValidateChallenge_huge_difficulty:
  "leadingZeros (EncodeToString (Sum256 (''88'' @ ''484''))) < nat 4611686018427387904
   \<and> ValidateChallenge (NewSHA256PoW 4611686018427387904 (seededRand 1)) ''88'' ''484''
       = Inl (Panic ''runtime error: makeslice: len out of range'')"
  by (simp add: Sum256_88484 leadingZeros_def ValidateChallenge_def NewSHA256PoW_def Repeat_def
      maxAlloc_def maxInt_def)

text \<open>
  C10. For a proof-of-work engine constructed with difficulty 0, \<open>ValidateChallenge\<close>
  returns true for every challenge and solution, the empty challenge and the empty
  solution included: the required prefix is the empty string.
\<close>

theorem ValidateChallenge_difficulty_zero:
  "ValidateChallenge (NewSHA256PoW 0 r) challenge solution = Inr True"
  by (simp add: ValidateChallenge_def NewSHA256PoW_def Repeat_def HasPrefix_def)

text \<open>
  C2. The claim is that \<open>ValidateChallenge\<close> with an empty challenge returns false for
  every difficulty and every solution, as \<^verbatim>\<open>TestEmptyChallenge\<close> expects at difficulty
  4. \<open>ValidateChallenge\<close> has no check for an empty challenge: at difficulty 4 it accepts
  the empty challenge with the solution \<open>88484\<close>, whose digest starts with four zeros,
  and at difficulty 0 it accepts it with the empty solution.
\<close>

theorem ValidateChallenge_empty_challenge_accepted:
  "ValidateChallenge (NewSHA256PoW 4 (seededRand 1)) [] ''88484'' = Inr True
   \<and> ValidateChallenge (NewSHA256PoW 0 (seededRand 1)) [] [] = Inr True"
proof -
  have "ValidateChallenge (NewSHA256PoW 0 (seededRand 1)) [] [] = Inr True"
    by (simp add: ValidateChallenge_def NewSHA256PoW_def Repeat_def HasPrefix_def)
  moreover have "ValidateChallenge (NewSHA256PoW 4 (seededRand 1)) [] ''88484'' = Inr True"
    by (simp add: ValidateChallenge_def NewSHA256PoW_def Repeat_def HasPrefix_def Sum256_88484
        maxAlloc_def maxInt_def eval_nat_numeral)
  ultimately show ?thesis by simp
qed

section \<open>Properties of the payload source\<close>

lemma Stub_not_empty: "Stub \<noteq> []"
  by (simp add: Stub_def)

lemma GetQuote_nonempty_list:
  assumes "quotes q \<noteq> []"
  shows "\<exists>i < length (quotes q). fst (GetQuote q) = Inr (quotes q ! i)"
proof -
  let ?n = "int (length (quotes q))"
  let ?i = "int (draws (qrng q) (pos (qrng q))) mod ?n"
  from assms have n: "0 < ?n" by simp
  then have range: "0 \<le> ?i" "?i < ?n" by simp_all
  from n range have "fst (GetQuote q) = Inr (quotes q ! nat ?i)"
    by (simp add: GetQuote_def Intn_def)
  moreover from range have "nat ?i < length (quotes q)" by linarith
  ultimately show ?thesis by blast
qed

text \<open>
  C9, as amended. When the backing list is empty \<open>GetQuote\<close> returns the fixed non-empty
  fallback \<open>Stub\<close>; when it is non-empty \<open>GetQuote\<close> returns one of its elements. The
  result is therefore non-empty whenever no element of the list is the empty string.
\<close>

theorem GetQuote_result:
  "(quotes q = [] \<longrightarrow> fst (GetQuote q) = Inr Stub \<and> Stub \<noteq> [])
   \<and> (quotes q \<noteq> [] \<longrightarrow> (\<exists>s \<in> set (quotes q). fst (GetQuote q) = Inr s))
   \<and> ((\<forall>s \<in> set (quotes q). s \<noteq> []) \<longrightarrow> (\<exists>s. fst (GetQuote q) = Inr s \<and> s \<noteq> []))"
proof (cases "quotes q = []")
  case True
  then show ?thesis by (simp add: GetQuote_def Stub_not_empty)
next
  case False
  from GetQuote_nonempty_list [OF False]
  obtain i where i: "i < length (quotes q)" "fst (GetQuote q) = Inr (quotes q ! i)" by blast
  then have "quotes q ! i \<in> set (quotes q)" by simp
  with i False show ?thesis by auto
qed

theorem GetQuote_result_witness:
  "quotes (NewRandomQuoteProvider [] (seededRand 3)) = []
   \<and> fst (GetQuote (NewRandomQuoteProvider [] (seededRand 3))) = Inr Stub
   \<and> quotes (NewRandomQuoteProvider [''a'', ''b'', ''c''] (seededRand 4)) \<noteq> []
   \<and> list_all (\<lambda>s. s \<noteq> []) (quotes (NewRandomQuoteProvider [''a'', ''b'', ''c''] (seededRand 4)))
   \<and> fst (GetQuote (NewRandomQuoteProvider [''a'', ''b'', ''c''] (seededRand 4))) = Inr ''b''"
  using GetQuote_result [of "NewRandomQuoteProvider [] (seededRand 3)"]
    GetQuote_result [of "NewRandomQuoteProvider [''a'', ''b'', ''c''] (seededRand 4)"]
  by (simp add: NewRandomQuoteProvider_def seededRand_def GetQuote_def Intn_def)

text \<open>
  The claim as stated fails: a list whose only element is the empty string makes
  \<open>GetQuote\<close> return the empty string.
\<close>

theorem GetQuote_empty_element:
  "fst (GetQuote (NewRandomQuoteProvider [[]] (seededRand 0))) = Inr []"
  by (simp add: NewRandomQuoteProvider_def seededRand_def GetQuote_def Intn_def)

section \<open>Properties of the protocol handler\<close>

text \<open>
  \<open>consumed c bs c'\<close>: reading has taken the connection from \<open>c\<close> to \<open>c'\<close> by
  delivering the bytes \<open>bs\<close>, the next of its stream, and has changed nothing else.
  \<open>filled b b'\<close>: the reader \<open>b'\<close> is \<open>b\<close> after buffering some more bytes of the
  connection, within the budget of the limited reader.
\<close>

definition consumed :: "Conn \<Rightarrow> string \<Rightarrow> Conn \<Rightarrow> bool" where
  "consumed c bs c' \<longleftrightarrow>
     stream c = bs @ stream c' \<and> bytesRead c' = bytesRead c + length bs \<and>
     written c' = written c \<and> wrs c' = wrs c \<and> closeCalls c' = closeCalls c \<and>
     remoteAddr c' = remoteAddr c \<and> deadline c' = deadline c"

definition filled :: "Reader \<Rightarrow> Reader \<Rightarrow> bool" where
  "filled b b' \<longleftrightarrow>
     (\<exists>bs. buffered b' = buffered b @ bs \<and> consumed (R (rd b)) bs (R (rd b')) \<and>
           nat (N (rd b')) + length bs = nat (N (rd b)))"

lemma consumed_refl: "consumed c [] c"
  by (simp add: consumed_def)

lemma consumed_trans: "consumed c xs c' \<Longrightarrow> consumed c' ys c'' \<Longrightarrow> consumed c (xs @ ys) c''"
  by (simp add: consumed_def)

lemma Conn_Read_consumed: "Conn_Read c n = ((bs, e), c') \<Longrightarrow> consumed c bs c'"
  by (auto simp: Conn_Read_def consumed_def stream_def split: list.splits segment.splits if_splits)

lemma LimitedReader_Read_consumed:
  "LimitedReader_Read l n = ((bs, e), l') \<Longrightarrow> consumed (R l) bs (R l')"
  by (auto simp: LimitedReader_Read_def Let_def consumed_refl
      split: if_splits prod.splits dest: Conn_Read_consumed)

lemma filled_refl: "filled b b"
  by (simp add: filled_def consumed_refl)

lemma filled_trans: "filled b b' \<Longrightarrow> filled b' b'' \<Longrightarrow> filled b b''"
  unfolding filled_def
  apply (elim exE conjE)
  subgoal for xs ys
    by (rule exI [of _ "xs @ ys"]) (auto intro: consumed_trans)
  done

lemma filled_err: "filled b b' \<Longrightarrow> filled b (b'\<lparr>err := e\<rparr>)"
  by (simp add: filled_def)

lemma fill_loop_filled: "filled b (fill_loop i b)"
proof (induction i arbitrary: b)
  case 0
  then show ?case by (simp add: filled_err filled_refl)
next
  case (Suc i)
  obtain bs e l' where r: "LimitedReader_Read (rd b) (defaultBufSize - length (buffered b)) = ((bs, e), l')"
    by (metis prod.exhaust)
  let ?b' = "b\<lparr>rd := l', buffered := buffered b @ bs\<rparr>"
  have step: "filled b ?b'"
    using LimitedReader_Read_consumed [OF r] LimitedReader_Read_budget [OF r]
    by (auto simp: filled_def)
  show ?case
    using r step filled_trans [OF step Suc.IH [of ?b']]
    by (auto simp: Let_def filled_err split: option.splits)
qed

lemma IndexByte_None: "IndexByte xs c = None \<longleftrightarrow> c \<notin> set xs"
  by (induction xs) auto

lemma IndexByte_Some:
  "IndexByte xs c = Some i \<Longrightarrow> i < length xs \<and> xs ! i = c \<and> c \<notin> set (take i xs)"
proof (induction xs arbitrary: i)
  case Nil
  then show ?case by simp
next
  case (Cons x xs)
  then show ?case by (auto split: if_splits)
qed

lemma found_line:
  assumes idx: "IndexByte (drop s buf) c = Some i" and pre: "c \<notin> set (take s buf)"
  shows "take (i + s + 1) buf \<noteq> [] \<and> last (take (i + s + 1) buf) = c
         \<and> c \<notin> set (butlast (take (i + s + 1) buf))"
proof -
  from IndexByte_Some [OF idx]
  have i: "i < length (drop s buf)" and at: "drop s buf ! i = c"
    and before: "c \<notin> set (take i (drop s buf))" by simp_all
  from i have len: "s + i < length buf" by simp
  then have "take (i + s + 1) buf = take (s + i) buf @ [buf ! (s + i)]"
    by (simp add: take_Suc_conv_app_nth add.commute)
  moreover from at len have "buf ! (s + i) = c" by simp
  moreover have "take (s + i) buf = take s buf @ take i (drop s buf)"
    by (simp add: take_add)
  ultimately have line: "take (i + s + 1) buf = (take s buf @ take i (drop s buf)) @ [c]"
    by simp
  have "butlast (take (i + s + 1) buf) = take s buf @ take i (drop s buf)"
    unfolding line by (rule butlast_snoc)
  moreover have "last (take (i + s + 1) buf) = c"
    unfolding line by (rule last_snoc)
  moreover have "take (i + s + 1) buf \<noteq> []"
    unfolding line by simp
  ultimately show ?thesis using pre before by simp
qed

lemma ReadSlice_result:
  assumes "ReadSlice b delim s = ((line, e), b')"
  shows "\<exists>b1. filled b b1 \<and> buffered b1 = line @ buffered b' \<and> rd b' = rd b1
          \<and> (e = None \<and> delim \<notin> set (take s (buffered b))
               \<longrightarrow> line \<noteq> [] \<and> last line = delim \<and> delim \<notin> set (butlast line))
          \<and> (e = Some ErrBufferFull \<longrightarrow> err b = Some ErrBufferFull \<or> defaultBufSize \<le> length line)"
  using assms
proof (induction b delim s rule: ReadSlice.induct)
  case (1 b delim s)
  show ?case
  proof (cases "IndexByte (drop s (buffered b)) delim")
    case (Some i)
    with "1.prems" have res: "line = take (i + s + 1) (buffered b)" "e = None"
      "b' = b\<lparr>buffered := drop (i + s + 1) (buffered b)\<rparr>"
      by (simp_all add: ReadSlice.simps [of b])
    show ?thesis
      apply (rule exI [of _ b])
      using res found_line [OF Some] by (simp add: filled_refl)
  next
    case None
    show ?thesis
    proof (cases "err b")
      case (Some e0)
      with None "1.prems" have "line = buffered b" "e = Some e0" "b' = b\<lparr>buffered := [], err := None\<rparr>"
        by (simp_all add: ReadSlice.simps [of b])
      with Some show ?thesis
        by (intro exI [of _ b]) (simp add: filled_refl)
    next
      case noerr: None
      show ?thesis
      proof (cases "defaultBufSize \<le> length (buffered b)")
        case True
        with None noerr "1.prems" have "line = buffered b" "e = Some ErrBufferFull" "b' = b\<lparr>buffered := []\<rparr>"
          by (simp_all add: ReadSlice.simps [of b])
        with True show ?thesis
          by (intro exI [of _ b]) (simp add: filled_refl)
      next
        case False
        with None noerr "1.prems"
        have rec: "ReadSlice (fill b) delim (length (buffered b)) = ((line, e), b')"
          by (simp add: ReadSlice.simps [of b])
        from "1.IH" [OF None noerr False rec]
        obtain b1 where b1: "filled (fill b) b1" "buffered b1 = line @ buffered b'" "rd b' = rd b1"
          and ok: "e = None \<and> delim \<notin> set (take (length (buffered b)) (buffered (fill b)))
               \<longrightarrow> line \<noteq> [] \<and> last line = delim \<and> delim \<notin> set (butlast line)"
          and full: "e = Some ErrBufferFull \<longrightarrow> err (fill b) = Some ErrBufferFull \<or> defaultBufSize \<le> length line"
          by blast
        have fb: "filled b (fill b)" by (simp add: fill_def fill_loop_filled)
        then obtain bs where bs: "buffered (fill b) = buffered b @ bs" by (auto simp: filled_def)
        from None have nodelim: "delim \<notin> set (drop s (buffered b))" by (simp add: IndexByte_None)
        have "delim \<notin> set (buffered b)" if "delim \<notin> set (take s (buffered b))"
          using that nodelim by (metis append_take_drop_id set_append Un_iff)
        with ok bs have ok': "e = None \<and> delim \<notin> set (take s (buffered b))
               \<longrightarrow> line \<noteq> [] \<and> last line = delim \<and> delim \<notin> set (butlast line)"
          by simp
        from noerr have "err (fill b) \<noteq> Some ErrBufferFull"
          by (simp add: fill_def fill_loop_not_full)
        with full have full': "e = Some ErrBufferFull \<longrightarrow> defaultBufSize \<le> length line" by simp
        from filled_trans [OF fb b1(1)] b1 ok' full' show ?thesis by blast
      qed
    qed
  qed
qed


text \<open>The first line of a stream that has one: the bytes up to its first newline.\<close>

definition firstLine :: "string \<Rightarrow> string" where
  "firstLine s = takeWhile (\<lambda>c. c \<noteq> newline) s @ [newline]"

lemma readClientResponse_result:
  assumes "readClientResponse conn = ((sol, eo), c')"
  shows "\<exists>line rest. consumed conn (line @ rest) c' \<and> length (line @ rest) \<le> 1024
          \<and> (case eo of
                None \<Rightarrow> sol = TrimSpace line \<and> line \<noteq> [] \<and> last line = newline
                         \<and> newline \<notin> set (butlast line)
              | Some e \<Rightarrow> sol = [])"
proof -
  let ?b0 = "NewReader \<lparr>R = conn, N = maxReadSize\<rparr>"
  obtain line e b' where rs: "ReadSlice ?b0 newline 0 = ((line, e), b')"
    by (metis prod.exhaust)
  from ReadSlice_result [OF rs]
  obtain b1 where b1: "filled ?b0 b1" "buffered b1 = line @ buffered b'" "rd b' = rd b1"
    and ok: "e = None \<longrightarrow> line \<noteq> [] \<and> last line = newline \<and> newline \<notin> set (butlast line)"
    and full: "e = Some ErrBufferFull \<longrightarrow> err ?b0 = Some ErrBufferFull \<or> defaultBufSize \<le> length line"
    by auto
  from b1(1) obtain bs where bs: "buffered b1 = bs" "consumed conn bs (R (rd b1))"
    "nat (N (rd b1)) + length bs = 1024"
    by (auto simp: filled_def NewReader_def maxReadSize_def)
  from bs b1 have len: "length (line @ buffered b') \<le> 1024" by simp
  with full have notfull: "e \<noteq> Some ErrBufferFull"
    by (auto simp: NewReader_def defaultBufSize_def)
  have cf: "collectFragments ?b0 newline = (([], line, e), b')"
    using rs notfull by (cases e) (simp_all add: collectFragments.simps [of ?b0])
  then have "ReadString ?b0 newline = ((line, e), b')"
    by (simp add: ReadString_def)
  with assms have res: "c' = R (rd b')" "eo = e"
    "sol = (case e of None \<Rightarrow> TrimSpace line | Some x \<Rightarrow> [])"
    by (auto simp: readClientResponse_def Let_def split: option.splits)
  from bs b1 res have "consumed conn (line @ buffered b') c'" by simp
  with len ok res show ?thesis
    by (intro exI [of _ line] exI [of _ "buffered b'"]) (auto split: option.splits)
qed

lemma takeWhile_upto:
  "c \<notin> set xs \<Longrightarrow> takeWhile (\<lambda>x. x \<noteq> c) (xs @ c # ys) = xs"
  by (induction xs) auto

lemma takeWhile_line:
  assumes "line \<noteq> []" "last line = c" "c \<notin> set (butlast line)"
  shows "takeWhile (\<lambda>x. x \<noteq> c) (line @ sfx) @ [c] = line"
proof -
  from assms(1,2) have line: "line = butlast line @ [c]" by (metis append_butlast_last_id)
  have "takeWhile (\<lambda>x. x \<noteq> c) ((butlast line @ [c]) @ sfx) = butlast line"
    using assms(3) by (simp add: takeWhile_upto)
  with line show ?thesis by metis
qed

lemma readClientResponse_ok:
  assumes "readClientResponse conn = ((sol, None), c')"
  shows "newline \<in> set (take 1024 (stream conn)) \<and> sol = TrimSpace (firstLine (stream conn))"
proof -
  from readClientResponse_result [OF assms]
  obtain line rest where c: "consumed conn (line @ rest) c'" and len: "length (line @ rest) \<le> 1024"
    and l: "sol = TrimSpace line" "line \<noteq> []" "last line = newline" "newline \<notin> set (butlast line)"
    by auto
  from c have st: "stream conn = line @ (rest @ stream c')" by (simp add: consumed_def)
  from takeWhile_line [OF l(2-4), of "rest @ stream c'"] st
  have fl: "firstLine (stream conn) = line" by (simp add: firstLine_def)
  from l(2,3) have "newline \<in> set line" by (metis last_in_set)
  moreover from len have "length line \<le> 1024" by simp
  then have "take 1024 (stream conn) = line @ take (1024 - length line) (rest @ stream c')"
    using st by simp
  ultimately show ?thesis using fl l(1) by simp
qed

lemma readClientResponse_conn:
  assumes "readClientResponse conn = (r, c')"
  shows "bytesRead c' \<le> bytesRead conn + 1024 \<and> written c' = written conn \<and> wrs c' = wrs conn"
proof -
  obtain sol eo where "r = (sol, eo)" by (cases r)
  with readClientResponse_result [of conn sol eo c'] assms
  obtain line rest where "consumed conn (line @ rest) c'" "length (line @ rest) \<le> 1024"
    by auto
  then show ?thesis by (auto simp: consumed_def)
qed

lemma sendMessage_conn:
  assumes "sendMessage conn m = (r, c')"
  shows "bytesRead c' = bytesRead conn \<and> rx c' = rx conn
         \<and> (\<exists>w. written c' = written conn @ [(m @ [newline], w)] \<and> (r = None \<longleftrightarrow> w = None))"
  using assms
  by (auto simp: sendMessage_def Conn_Write_def split: list.splits option.splits prod.splits)

lemma sendMessage_ok:
  assumes "sendMessage conn m = (None, c')"
  shows "written c' = written conn @ [(m @ [newline], None)] \<and> bytesRead c' = bytesRead conn
         \<and> rx c' = rx conn"
  using sendMessage_conn [OF assms] by auto

lemma sendMessage_stream: "sendMessage conn m = (r, c') \<Longrightarrow> stream c' = stream conn"
  using sendMessage_conn [of conn m r c'] by (simp add: stream_def)

text \<open>Some clients and a server's handler, to run the handler on.\<close>

definition clientConn :: "segment list \<Rightarrow> Conn" where
  "clientConn input =
     \<lparr>remoteAddr = TCPAddr ''192.0.2.7'' 4001, rx = input, wrs = [], written = [],
      bytesRead = 0, closeCalls = 0, deadline = None, deadlineErr = None\<rparr>"

definition serverHandler :: "int \<Rightarrow> nat \<Rightarrow> (SHA256PoW, RandomQuoteProvider) H" where
  "serverHandler d seed =
     NewHandler (quoteObject (NewRandomQuoteProvider [''Do what you can.''] (seededRand 0)))
       (powObject (NewSHA256PoW d (seededRand seed)))"

lemma serverHandler_challenge:
  "pc_GenerateChallenge (powChallenge (serverHandler d 136)) (pc_self (powChallenge (serverHandler d 136)))
     = (''88'', NewSHA256PoW d ((seededRand 136)\<lparr>pos := 1\<rparr>))"
  by (simp add: serverHandler_def NewHandler_def powObject_def GenerateChallenge_def Int63_def
      seededRand_def NewSHA256PoW_def hexDigits.simps [of 136] hexDigits.simps [of 8] hextable_def)

lemma clientConn_challenge_sent:
  "sendMessage (clientConn input) (PrefixChallenge @ ''88'')
     = (None, (clientConn input)\<lparr>written := [(''CHALLENGE:88'' @ [newline], None)]\<rparr>)"
  by (simp add: sendMessage_def Conn_Write_def clientConn_def PrefixChallenge_def)

lemma ValidateChallenge_88_484:
  "ValidateChallenge (NewSHA256PoW 5 r) ''88'' ''484'' = Inr False"
  "ValidateChallenge (NewSHA256PoW 4 r) ''88'' ''484'' = Inr True"
  by (simp_all add: ValidateChallenge_def NewSHA256PoW_def Repeat_def HasPrefix_def Sum256_88484
      maxAlloc_def maxInt_def eval_nat_numeral)

lemma read_484:
  "readClientResponse ((clientConn [Seg (''484'' @ [CHR 0x0D, newline]) None])
       \<lparr>written := [(''CHALLENGE:88'' @ [newline], None)]\<rparr>)
     = ((''484'', None),
        (clientConn [])\<lparr>written := [(''CHALLENGE:88'' @ [newline], None)], bytesRead := 5\<rparr>)"
  by code_simp

lemma read_timeout:
  "readClientResponse ((clientConn [Seg ''48'' (Some (ConnErr ''i/o timeout''))])
       \<lparr>written := [(''CHALLENGE:88'' @ [newline], None)]\<rparr>)
     = (([], Some (OpError ''i/o timeout'')),
        (clientConn [])\<lparr>written := [(''CHALLENGE:88'' @ [newline], None)], bytesRead := 2\<rparr>)"
  by code_simp

text \<open>
  C3. When the challenge write and the solution read succeed and \<open>ValidateChallenge\<close>
  rejects the trimmed solution (an empty one included), \<open>HandleConnection\<close> writes exactly
  one more line, the error prefix followed by \<open>Invalid PoW solution\<close>, does not call
  \<open>GetQuote\<close>, and returns no error, provided that this write succeeds.
\<close>

theorem HandleConnection_invalid_solution:
  assumes gen: "pc_GenerateChallenge (powChallenge h) (pc_self (powChallenge h)) = (challenge, p1)"
    and send: "sendMessage conn (PrefixChallenge @ challenge) = (None, c1)"
    and rd: "readClientResponse c1 = ((solution, None), c2)"
    and invalid: "pc_ValidateChallenge (powChallenge h) p1 challenge solution = Inr False"
    and send': "sendMessage c2 (PrefixError @ InvalidMsg) = (None, c3)"
  shows "\<exists>h'. HandleConnection h conn = (Returned None, h', c3)
           \<and> written c3 = written conn @ [((PrefixChallenge @ challenge) @ [newline], None),
                                           ((PrefixError @ ''Invalid PoW solution'') @ [newline], None)]
           \<and> calls h' = calls h @ [CallGenerateChallenge, CallValidateChallenge challenge solution]
           \<and> quoteProvider h' = quoteProvider h"
proof -
  from sendMessage_ok [OF send] have w1: "written c1 = written conn @ [((PrefixChallenge @ challenge) @ [newline], None)]"
    by simp
  from readClientResponse_conn [OF rd] have w2: "written c2 = written c1" by simp
  from sendMessage_ok [OF send'] have w3: "written c3 = written c2 @ [((PrefixError @ InvalidMsg) @ [newline], None)]"
    by simp
  show ?thesis
    using gen send rd invalid send' w1 w2 w3
    by (simp add: HandleConnection_def Let_def InvalidMsg_def)
qed

theorem HandleConnection_invalid_solution_witness:
  "fst (HandleConnection (serverHandler 5 136) (clientConn [Seg (''484'' @ [CHR 0x0D, newline]) None]))
     = Returned None
   \<and> written (snd (snd (HandleConnection (serverHandler 5 136)
        (clientConn [Seg (''484'' @ [CHR 0x0D, newline]) None]))))
     = [(''CHALLENGE:88'' @ [newline], None), (''ERROR:Invalid PoW solution'' @ [newline], None)]
   \<and> calls (fst (snd (HandleConnection (serverHandler 5 136)
        (clientConn [Seg (''484'' @ [CHR 0x0D, newline]) None]))))
     = [CallGenerateChallenge, CallValidateChallenge ''88'' ''484'']"
proof -
  let ?c2 = "(clientConn [])\<lparr>written := [(''CHALLENGE:88'' @ [newline], None)], bytesRead := 5\<rparr>"
  let ?c3 = "?c2\<lparr>written := written ?c2 @ [(''ERROR:Invalid PoW solution'' @ [newline], None)]\<rparr>"
  have invalid: "pc_ValidateChallenge (powChallenge (serverHandler 5 136))
      (NewSHA256PoW 5 ((seededRand 136)\<lparr>pos := 1\<rparr>)) ''88'' ''484'' = Inr False"
    by (simp add: serverHandler_def NewHandler_def powObject_def ValidateChallenge_88_484)
  have send': "sendMessage ?c2 (PrefixError @ InvalidMsg) = (None, ?c3)"
    by (simp add: sendMessage_def Conn_Write_def clientConn_def PrefixError_def InvalidMsg_def)
  from HandleConnection_invalid_solution [OF serverHandler_challenge clientConn_challenge_sent
      read_484 invalid send']
  show ?thesis
    by (auto simp: clientConn_def PrefixChallenge_def PrefixError_def serverHandler_def NewHandler_def)
qed

lemma spaceEncodings_nonempty: "e \<in> set spaceEncodings \<Longrightarrow> e \<noteq> []"
  by (auto simp: spaceEncodings_def)

lemma leadingSpace_zero: "leadingSpace s = 0 \<longleftrightarrow> (\<forall>e \<in> set spaceEncodings. \<not> HasPrefix s e)"
proof (cases "find (\<lambda>e. HasPrefix s e) spaceEncodings")
  case None
  then have "leadingSpace s = 0" by (simp add: leadingSpace_def)
  moreover from None have "\<forall>e \<in> set spaceEncodings. \<not> HasPrefix s e"
    by (simp add: find_None_iff)
  ultimately show ?thesis by simp
next
  case (Some e)
  then have "e \<in> set spaceEncodings" "HasPrefix s e"
    by (auto simp: find_Some_iff)
  with Some spaceEncodings_nonempty [of e] show ?thesis
    by (auto simp: leadingSpace_def)
qed

lemma trailingSpace_zero:
  "trailingSpace s = 0 \<longleftrightarrow> (\<forall>e \<in> set spaceEncodings. \<not> HasPrefix (rev s) (rev e))"
proof (cases "find (\<lambda>e. HasPrefix (rev s) (rev e)) spaceEncodings")
  case None
  then have "trailingSpace s = 0" by (simp add: trailingSpace_def)
  moreover from None have "\<forall>e \<in> set spaceEncodings. \<not> HasPrefix (rev s) (rev e)"
    by (simp add: find_None_iff)
  ultimately show ?thesis by simp
next
  case (Some e)
  then have "e \<in> set spaceEncodings" "HasPrefix (rev s) (rev e)"
    by (auto simp: find_Some_iff)
  with Some spaceEncodings_nonempty [of e] show ?thesis
    by (auto simp: trailingSpace_def)
qed

lemma HasPrefix_take: "HasPrefix (take k s) e \<Longrightarrow> HasPrefix s e"
  by (auto simp: HasPrefix_def min_def split: if_splits)

lemma leadingSpace_take: "leadingSpace s = 0 \<Longrightarrow> leadingSpace (take k s) = 0"
  by (auto simp: leadingSpace_zero dest: HasPrefix_take)

lemma TrimLeftSpace_leading: "leadingSpace (TrimLeftSpace s) = 0"
proof (induction s rule: TrimLeftSpace.induct)
  case (1 s)
  then show ?case by (cases "leadingSpace s = 0") (simp_all add: TrimLeftSpace.simps [of s])
qed

lemma TrimLeftSpace_drop: "\<exists>i. TrimLeftSpace s = drop i s"
proof (induction s rule: TrimLeftSpace.induct)
  case (1 s)
  show ?case
  proof (cases "leadingSpace s = 0")
    case True
    then have "TrimLeftSpace s = drop 0 s" by (simp add: TrimLeftSpace.simps [of s])
    then show ?thesis by blast
  next
    case False
    with "1.IH" obtain i where "TrimLeftSpace (drop (leadingSpace s) s) = drop i (drop (leadingSpace s) s)"
      by blast
    with False have "TrimLeftSpace s = drop (i + leadingSpace s) s"
      by (simp add: TrimLeftSpace.simps [of s])
    then show ?thesis by blast
  qed
qed

lemma TrimRightSpace_trailing: "trailingSpace (TrimRightSpace s) = 0"
proof (induction s rule: TrimRightSpace.induct)
  case (1 s)
  then show ?case by (cases "trailingSpace s = 0") (simp_all add: TrimRightSpace.simps [of s])
qed

lemma TrimRightSpace_take: "\<exists>k. TrimRightSpace s = take k s"
proof (induction s rule: TrimRightSpace.induct)
  case (1 s)
  show ?case
  proof (cases "trailingSpace s = 0")
    case True
    then have "TrimRightSpace s = take (length s) s" by (simp add: TrimRightSpace.simps [of s])
    then show ?thesis by blast
  next
    case False
    with "1.IH" obtain k where
      "TrimRightSpace (take (length s - trailingSpace s) s) = take k (take (length s - trailingSpace s) s)"
      by blast
    with False have "TrimRightSpace s = take (min k (length s - trailingSpace s)) s"
      by (simp add: TrimRightSpace.simps [of s])
    then show ?thesis by blast
  qed
qed

text \<open>
  What \<open>TrimSpace\<close> returns is a part of the string that neither starts nor ends with
  white space.
\<close>

lemma TrimSpace_trimmed:
  "leadingSpace (TrimSpace s) = 0 \<and> trailingSpace (TrimSpace s) = 0
   \<and> (\<exists>i k. TrimSpace s = take k (drop i s))"
proof -
  obtain i where i: "TrimLeftSpace s = drop i s" using TrimLeftSpace_drop by blast
  obtain k where k: "TrimRightSpace (TrimLeftSpace s) = take k (TrimLeftSpace s)"
    using TrimRightSpace_take by blast
  from k have "leadingSpace (TrimSpace s) = 0"
    by (simp add: TrimSpace_def leadingSpace_take TrimLeftSpace_leading)
  moreover have "trailingSpace (TrimSpace s) = 0"
    by (simp add: TrimSpace_def TrimRightSpace_trailing)
  moreover from i k have "TrimSpace s = take k (drop i s)" by (simp add: TrimSpace_def)
  ultimately show ?thesis by blast
qed

text \<open>
  C7. The solution read consumes at most 1024 bytes of the connection. When it succeeds,
  the solution passed to \<open>ValidateChallenge\<close> is the first line of the input, trimmed of
  surrounding white space: it neither starts nor ends with a white-space character. When it fails, and it fails whenever no newline arrives within
  the first 1024 bytes, \<open>HandleConnection\<close> returns the read failure and has written
  nothing but the challenge.
\<close>

theorem HandleConnection_solution_read:
  assumes gen: "pc_GenerateChallenge (powChallenge h) (pc_self (powChallenge h)) = (challenge, p1)"
    and send: "sendMessage conn (PrefixChallenge @ challenge) = (None, c1)"
    and rd: "readClientResponse c1 = ((sol, eo), c2)"
  shows "bytesRead c2 \<le> bytesRead conn + 1024
         \<and> bytesRead (snd (snd (HandleConnection h conn))) = bytesRead c2
         \<and> (newline \<notin> set (take 1024 (stream conn)) \<longrightarrow> eo \<noteq> None)
         \<and> (case eo of
               None \<Rightarrow>
                 sol = TrimSpace (firstLine (stream conn))
                 \<and> leadingSpace sol = 0 \<and> trailingSpace sol = 0
                 \<and> (\<exists>rest. calls (fst (snd (HandleConnection h conn)))
                       = calls h @ [CallGenerateChallenge, CallValidateChallenge challenge sol] @ rest)
             | Some e \<Rightarrow>
                 HandleConnection h conn
                   = (Returned (Some (Wrapped ''failed to read client response: '' e)),
                      h\<lparr>powChallenge := (powChallenge h)\<lparr>pc_self := p1\<rparr>,
                        calls := calls h @ [CallGenerateChallenge]\<rparr>,
                      c2)
                 \<and> written c2 = written conn @ [((PrefixChallenge @ challenge) @ [newline], None)])"
proof -
  from sendMessage_ok [OF send]
  have c1: "written c1 = written conn @ [((PrefixChallenge @ challenge) @ [newline], None)]"
    "bytesRead c1 = bytesRead conn" by simp_all
  from sendMessage_stream [OF send] have st: "stream c1 = stream conn" .
  from readClientResponse_conn [OF rd] c1
  have c2: "bytesRead c2 \<le> bytesRead conn + 1024" "written c2 = written c1" by simp_all
  have final: "bytesRead (snd (snd (HandleConnection h conn))) = bytesRead c2"
    using gen send rd
    by (auto simp: HandleConnection_def Let_def
        split: option.splits sum.splits prod.splits dest: sendMessage_conn)
  show ?thesis
  proof (cases eo)
    case None
    with rd have ok: "readClientResponse c1 = ((sol, None), c2)" by simp
    from readClientResponse_ok [OF ok] st
    have line: "newline \<in> set (take 1024 (stream conn))" "sol = TrimSpace (firstLine (stream conn))"
      by simp_all
    have "\<exists>rest. calls (fst (snd (HandleConnection h conn)))
            = calls h @ [CallGenerateChallenge, CallValidateChallenge challenge sol] @ rest"
      using gen send ok
      by (auto simp: HandleConnection_def Let_def split: option.splits sum.splits prod.splits)
    with None c2 final line TrimSpace_trimmed [of "firstLine (stream conn)"] show ?thesis
      by simp
  next
    case (Some e)
    have "newline \<in> set (take 1024 (stream conn)) \<or> eo \<noteq> None" using Some by simp
    moreover have "HandleConnection h conn
        = (Returned (Some (Wrapped ''failed to read client response: '' e)),
           h\<lparr>powChallenge := (powChallenge h)\<lparr>pc_self := p1\<rparr>,
             calls := calls h @ [CallGenerateChallenge]\<rparr>, c2)"
      using gen send rd Some by (simp add: HandleConnection_def Let_def)
    ultimately show ?thesis using Some c1 c2 final by simp
  qed
qed

theorem HandleConnection_solution_read_witness:
  "fst (HandleConnection (serverHandler 4 136) (clientConn [Seg ''48'' (Some (ConnErr ''i/o timeout''))]))
     = Returned (Some (Wrapped ''failed to read client response: '' (OpError ''i/o timeout'')))
   \<and> written (snd (snd (HandleConnection (serverHandler 4 136)
         (clientConn [Seg ''48'' (Some (ConnErr ''i/o timeout''))]))))
     = [(''CHALLENGE:88'' @ [newline], None)]
   \<and> TrimSpace (firstLine (stream (clientConn [Seg (''484'' @ [CHR 0x0D, newline]) None]))) = ''484''
   \<and> bytesRead (snd (snd (HandleConnection (serverHandler 4 136)
         (clientConn [Seg (''484'' @ [CHR 0x0D, newline]) None])))) = 5"
proof -
  note timeout = HandleConnection_solution_read
    [OF serverHandler_challenge [of 4] clientConn_challenge_sent read_timeout]
  note line = HandleConnection_solution_read
    [OF serverHandler_challenge [of 4] clientConn_challenge_sent read_484]
  note timeout' = timeout [THEN conjunct2, THEN conjunct2, THEN conjunct2, unfolded option.case]
  note line' = line [THEN conjunct2, THEN conjunct2, THEN conjunct2, unfolded option.case]
  have a: "fst (HandleConnection (serverHandler 4 136) (clientConn [Seg ''48'' (Some (ConnErr ''i/o timeout''))]))
       = Returned (Some (Wrapped ''failed to read client response: '' (OpError ''i/o timeout'')))"
    by (simp only: timeout' [THEN conjunct1] fst_conv)
  have a': "written (snd (snd (HandleConnection (serverHandler 4 136)
         (clientConn [Seg ''48'' (Some (ConnErr ''i/o timeout''))]))))
       = [(''CHALLENGE:88'' @ [newline], None)]"
    using timeout' [THEN conjunct1] by simp
  have c: "TrimSpace (firstLine (stream (clientConn [Seg (''484'' @ [CHR 0x0D, newline]) None]))) = ''484''"
    by (rule line' [THEN conjunct1, symmetric])
  have c': "bytesRead (snd (snd (HandleConnection (serverHandler 4 136)
         (clientConn [Seg (''484'' @ [CHR 0x0D, newline]) None])))) = 5"
    using line [THEN conjunct2, THEN conjunct1] by simp
  from a a' c c' show ?thesis by blast
qed

section \<open>Properties of the connection manager\<close>

text \<open>A configuration and some servers to run.\<close>

definition testConfig :: "int \<Rightarrow> int \<Rightarrow> Config" where
  "testConfig maxc rl =
     \<lparr>Port = '':9000'', MaxConnections = maxc, ConnectionTimeout = 2000 * Millisecond,
      ShutdownTimeout = 5000 * Millisecond, RateLimitEvery100MS = rl\<rparr>"

text \<open>The handlers of the server's tests: one returns, one fails, one panics.\<close>

definition MockHandler :: "Conn \<Rightarrow> hresult \<times> Conn" where
  "MockHandler c = (Returned None, c)"

definition MockHandlerWithError :: "Conn \<Rightarrow> hresult \<times> Conn" where
  "MockHandlerWithError c = (Returned (Some (OpError ''mock handler error'')), c)"

definition MockHandlerWithPanic :: "Conn \<Rightarrow> hresult \<times> Conn" where
  "MockHandlerWithPanic c = (Panicked (Panic ''hello panic''), c)"

definition testServer :: "int \<Rightarrow> int \<Rightarrow> (Conn \<Rightarrow> hresult \<times> Conn) \<Rightarrow> Server" where
  "testServer maxc rl h =
     \<lparr>listener = None, ctxDone = False, wg = 0, semaphore = 0, shutdownOnce = False,
      config = testConfig maxc rl, handler = h, logger = [], limiterMap = Map.empty,
      heap = Map.empty, nextRef = 0\<rparr>"

lemma NewServer_testServer: "0 \<le> maxc \<Longrightarrow> NewServer (testConfig maxc rl) h = Inr (testServer maxc rl h)"
  by (simp add: NewServer_def testServer_def testConfig_def)

text \<open>
  C5. When no admission permit is free as a connection is accepted, the connection is
  closed at once: it is not handed to a unit of work (and so not to the protocol
  handler), no limiter is created or consulted, and nothing is written to it.
\<close>

theorem acceptOne_no_permit:
  assumes "capacity (srv sys) \<le> semaphore (srv sys)"
  shows "acceptOne sys (Accepted conn)
           = sys\<lparr>srv := logf WarnLevel ''Too many connections. Rejecting client.'' (srv sys),
                 rejected := rejected sys @ [Conn_Close conn]\<rparr>
         \<and> running (acceptOne sys (Accepted conn)) = running sys
         \<and> heap (srv (acceptOne sys (Accepted conn))) = heap (srv sys)
         \<and> limiterMap (srv (acceptOne sys (Accepted conn))) = limiterMap (srv sys)
         \<and> written (Conn_Close conn) = written conn
         \<and> closeCalls (Conn_Close conn) = closeCalls conn + 1"
  using assms by (simp add: acceptOne_def logf_def Conn_Close_def)

lemma run_two_accepts:
  "run (started (testServer 2 5 MockHandler))
       [Accept (Accepted (clientConn [])), Accept (Accepted (clientConn []))]
     = (started (testServer 2 5 MockHandler))
         \<lparr>srv := (srv (started (testServer 2 5 MockHandler)))\<lparr>semaphore := 2, wg := 2\<rparr>,
           running := [clientConn [], clientConn []]\<rparr>"
  by (simp add: run_def started_def Start_def testServer_def testConfig_def acceptOne_def logf_def
      listening_def capacity_def)

theorem acceptOne_no_permit_witness:
  "capacity (srv (run (started (testServer 2 5 MockHandler))
       [Accept (Accepted (clientConn [])), Accept (Accepted (clientConn []))])) = 2
   \<and> semaphore (srv (run (started (testServer 2 5 MockHandler))
       [Accept (Accepted (clientConn [])), Accept (Accepted (clientConn []))])) = 2
   \<and> rejected (acceptOne (run (started (testServer 2 5 MockHandler))
       [Accept (Accepted (clientConn [])), Accept (Accepted (clientConn []))])
       (Accepted (clientConn [Seg ''0'' None])))
     = [(clientConn [Seg ''0'' None])\<lparr>closeCalls := 1\<rparr>]
   \<and> running (acceptOne (run (started (testServer 2 5 MockHandler))
       [Accept (Accepted (clientConn [])), Accept (Accepted (clientConn []))])
       (Accepted (clientConn [Seg ''0'' None])))
     = [clientConn [], clientConn []]"
proof -
  let ?sys = "run (started (testServer 2 5 MockHandler))
       [Accept (Accepted (clientConn [])), Accept (Accepted (clientConn []))]"
  have full: "capacity (srv ?sys) = 2" "semaphore (srv ?sys) = 2"
    unfolding run_two_accepts
    by (simp_all add: capacity_def started_def Start_def testServer_def testConfig_def logf_def)
  then have "capacity (srv ?sys) \<le> semaphore (srv ?sys)" by simp
  from acceptOne_no_permit [OF this, of "clientConn [Seg ''0'' None]"]
  have "rejected (acceptOne ?sys (Accepted (clientConn [Seg ''0'' None])))
          = rejected ?sys @ [Conn_Close (clientConn [Seg ''0'' None])]"
    and "running (acceptOne ?sys (Accepted (clientConn [Seg ''0'' None]))) = running ?sys"
    by simp_all
  moreover have "rejected ?sys = []" "running ?sys = [clientConn [], clientConn []]"
    unfolding run_two_accepts by (simp_all add: started_def Start_def)
  moreover have "Conn_Close (clientConn [Seg ''0'' None]) = (clientConn [Seg ''0'' None])\<lparr>closeCalls := 1\<rparr>"
    by (simp add: Conn_Close_def clientConn_def)
  ultimately show ?thesis using full by simp
qed

text \<open>Calling \<open>Shutdown\<close> once for each element of a list, one call after the other.\<close>

definition shutdowns :: "Server \<Rightarrow> drain list \<Rightarrow> Server" where
  "shutdowns s ds = foldl (\<lambda>s d. snd (Shutdown s d)) s ds"

lemma Shutdown_used: "shutdownOnce (snd (Shutdown s d))"
  by (simp add: Shutdown_def split: prod.splits)

lemma Shutdown_noop: "shutdownOnce s \<Longrightarrow> Shutdown s d = (None, s)"
  by (simp add: Shutdown_def)

lemma shutdowns_noop: "shutdownOnce s \<Longrightarrow> shutdowns s ds = s"
  by (induction ds) (simp_all add: shutdowns_def Shutdown_noop)

lemma shutdowns_Cons: "shutdowns s (d # ds) = snd (Shutdown s d)"
proof -
  have "shutdowns s (d # ds) = shutdowns (snd (Shutdown s d)) ds"
    by (simp add: shutdowns_def)
  also have "\<dots> = snd (Shutdown s d)"
    by (rule shutdowns_noop) (rule Shutdown_used)
  finally show ?thesis .
qed

lemma closeListener_logger:
  "closeListener s = Inr s' \<Longrightarrow>
     count_list (logger s') (InfoLevel, ''Shutting down server...'')
       = count_list (logger s) (InfoLevel, ''Shutting down server...'')"
  by (auto simp: closeListener_def logf_def Let_def split: option.splits prod.splits)

lemma Shutdown_body_logger:
  "count_list (logger (snd (Shutdown_body s d))) (InfoLevel, ''Shutting down server...'')
     = count_list (logger s) (InfoLevel, ''Shutting down server...'') + 1"
proof (cases "closeListener (logf InfoLevel ''Shutting down server...'' s)")
  case (Inl p)
  then show ?thesis by (simp add: Shutdown_body_def logf_def)
next
  case (Inr s2)
  from closeListener_logger [OF Inr] show ?thesis
    using Inr by (simp add: Shutdown_body_def cancel_def waitDrain_def logf_def split: drain.splits)
qed

text \<open>
  C8. \<open>Shutdown\<close> is idempotent. Of any number of invocations of a server that has not
  been shut down, by explicit calls or on the termination signal, the first runs the
  body, once: it closes the listener, waits for the units in flight or for the drain
  timeout, and cancels the context, in this order. Every further invocation returns at
  once and leaves the server as it is. (\<^verbatim>\<open>sync.Once\<close> makes concurrent invocations
  wait for the one that runs the body, so they take effect one after the other.)
\<close>

theorem Shutdown_idempotent:
  assumes "\<not> shutdownOnce s"
  shows "shutdowns s (d # ds) = snd (Shutdown s d)
         \<and> count_list (logger (shutdowns s (d # ds))) (InfoLevel, ''Shutting down server...'')
             = count_list (logger s) (InfoLevel, ''Shutting down server...'') + 1
         \<and> Shutdown (snd (Shutdown s d)) d' = (None, snd (Shutdown s d))
         \<and> (\<forall>s2. closeListener (logf InfoLevel ''Shutting down server...'' s) = Inr s2 \<longrightarrow>
               Shutdown s d = (None, (cancel (waitDrain s2 d))\<lparr>shutdownOnce := True\<rparr>))
         \<and> srv (step sys (CallShutdown d)) = snd (Shutdown (srv sys) d)
         \<and> srv (step sys (Signal d)) = snd (Shutdown ((srv sys)\<lparr>ctxDone := True\<rparr>) d)"
proof -
  have once: "count_list (logger (snd (Shutdown s d))) (InfoLevel, ''Shutting down server...'')
      = count_list (logger s) (InfoLevel, ''Shutting down server...'') + 1"
    using assms Shutdown_body_logger [of s d]
    by (simp add: Shutdown_def case_prod_beta)
  have body: "Shutdown s d = (None, (cancel (waitDrain s2 d))\<lparr>shutdownOnce := True\<rparr>)"
    if "closeListener (logf InfoLevel ''Shutting down server...'' s) = Inr s2" for s2
    using assms that by (simp add: Shutdown_def Shutdown_body_def)
  have noop: "Shutdown (snd (Shutdown s d)) d' = (None, snd (Shutdown s d))"
    by (rule Shutdown_noop) (rule Shutdown_used)
  have paths: "srv (step sys (CallShutdown d)) = snd (Shutdown (srv sys) d)"
    "srv (step sys (Signal d)) = snd (Shutdown ((srv sys)\<lparr>ctxDone := True\<rparr>) d)"
    by (simp_all split: prod.splits option.splits)
  from once body noop paths show ?thesis
    by (simp only: shutdowns_Cons) blast
qed

theorem Shutdown_idempotent_witness:
  "\<not> shutdownOnce (srv (started (testServer 2 5 MockHandler)))
   \<and> shutdowns (srv (started (testServer 2 5 MockHandler))) [TimedOut, Drained, Drained]
       = snd (Shutdown (srv (started (testServer 2 5 MockHandler))) TimedOut)
   \<and> logger (shutdowns (srv (started (testServer 2 5 MockHandler))) [TimedOut, Drained, Drained])
       = [(InfoLevel, ''Server started on port :9000''),
          (InfoLevel, ''Shutting down server...''),
          (WarnLevel, ''Shutdown timeout reached. Forcing termination.'')]
   \<and> listener (shutdowns (srv (started (testServer 2 5 MockHandler))) [TimedOut, Drained, Drained])
       = Some \<lparr>closedL = True\<rparr>
   \<and> ctxDone (shutdowns (srv (started (testServer 2 5 MockHandler))) [TimedOut, Drained, Drained])"
proof -
  let ?s = "srv (started (testServer 2 5 MockHandler))"
  have fresh: "\<not> shutdownOnce ?s"
    by (simp add: started_def Start_def testServer_def logf_def)
  have first: "snd (Shutdown ?s TimedOut)
      = ?s\<lparr>listener := Some \<lparr>closedL = True\<rparr>, ctxDone := True, shutdownOnce := True,
            logger := [(InfoLevel, ''Server started on port :9000''),
                       (InfoLevel, ''Shutting down server...''),
                       (WarnLevel, ''Shutdown timeout reached. Forcing termination.'')]\<rparr>"
    by (simp add: started_def Start_def testServer_def testConfig_def logf_def Shutdown_def
        Shutdown_body_def closeListener_def Listener_Close_def waitDrain_def cancel_def)
  from Shutdown_idempotent [OF fresh, of TimedOut "[Drained, Drained]"]
  have "shutdowns ?s [TimedOut, Drained, Drained] = snd (Shutdown ?s TimedOut)" by blast
  with fresh first show ?thesis by simp
qed

text \<open>
  The calls of \<open>getLimiterForIP\<close> of any number of units, in the order in which their
  atomic \<^verbatim>\<open>LoadOrStore\<close> steps take effect, with the limiter each call returns.
\<close>

fun getLimiters :: "Server \<Rightarrow> string list \<Rightarrow> nat list \<times> Server" where
  "getLimiters s [] = ([], s)"
| "getLimiters s (ip # ips) =
     (let (r, s1) = getLimiterForIP s ip;
          (rs, s2) = getLimiters s1 ips
      in (r # rs, s2))"

text \<open>
  The registry is in order: every address has a limiter of its own, allocated, with the
  fixed interval and the configured burst.
\<close>

definition limiters_ok :: "Server \<Rightarrow> bool" where
  "limiters_ok s \<longleftrightarrow>
     (\<forall>ip r. limiterMap s ip = Some r \<longrightarrow>
        r < nextRef s \<and>
        (\<exists>l. heap s r = Some l \<and> every l = 100 * Millisecond \<and> burst l = RateLimitEvery100MS (config s)))
     \<and> inj_on (limiterMap s) (dom (limiterMap s))"

lemma getLimiterForIP_step:
  assumes ok: "limiters_ok s" and g: "getLimiterForIP s ip = (r, s')"
  shows "limiters_ok s' \<and> limiterMap s' ip = Some r
         \<and> (\<forall>ip' r'. limiterMap s ip' = Some r' \<longrightarrow> limiterMap s' ip' = Some r')
         \<and> config s' = config s"
proof (cases "limiterMap s ip")
  case None
  with g have s': "s' = logf InfoLevel (''Created new rate limiter for IP: '' @ ip)
      (s\<lparr>heap := (heap s)(nextRef s \<mapsto> NewLimiter (100 * Millisecond) (RateLimitEvery100MS (config s))),
         nextRef := nextRef s + 1, limiterMap := (limiterMap s)(ip \<mapsto> nextRef s)\<rparr>)"
    and r: "r = nextRef s"
    by (auto simp: getLimiterForIP_def LoadOrStore_def Let_def)
  have old: "r' < nextRef s" if "limiterMap s ip' = Some r'" for ip' r'
    using ok that by (auto simp: limiters_ok_def)
  have inj: "inj_on ((limiterMap s)(ip \<mapsto> nextRef s)) (dom ((limiterMap s)(ip \<mapsto> nextRef s)))"
  proof (rule inj_onI)
    fix x y
    assume x: "x \<in> dom ((limiterMap s)(ip \<mapsto> nextRef s))"
      and y: "y \<in> dom ((limiterMap s)(ip \<mapsto> nextRef s))"
      and eq: "((limiterMap s)(ip \<mapsto> nextRef s)) x = ((limiterMap s)(ip \<mapsto> nextRef s)) y"
    show "x = y"
    proof (cases "x = ip \<or> y = ip")
      case True
      with x y eq show ?thesis by (auto split: if_splits dest!: old sym [THEN old])
    next
      case False
      with x y eq have "x \<in> dom (limiterMap s)" "y \<in> dom (limiterMap s)" "limiterMap s x = limiterMap s y"
        by auto
      with ok show ?thesis by (auto simp: limiters_ok_def dest: inj_onD)
    qed
  qed
  have "limiters_ok s'"
    unfolding limiters_ok_def
  proof (intro conjI allI impI)
    fix ip' r'
    assume "limiterMap s' ip' = Some r'"
    then have cases: "(ip' = ip \<and> r' = nextRef s) \<or> (ip' \<noteq> ip \<and> limiterMap s ip' = Some r')"
      by (auto simp: s' logf_def split: if_splits)
    then show "r' < nextRef s'"
      by (auto simp: s' logf_def dest!: old)
    from cases show "\<exists>l. heap s' r' = Some l \<and> every l = 100 * Millisecond
        \<and> burst l = RateLimitEvery100MS (config s')"
    proof
      assume "ip' = ip \<and> r' = nextRef s"
      then show ?thesis by (simp add: s' logf_def NewLimiter_def)
    next
      assume a: "ip' \<noteq> ip \<and> limiterMap s ip' = Some r'"
      with old have "r' \<noteq> nextRef s" by fastforce
      with a ok show ?thesis by (auto simp: s' logf_def limiters_ok_def)
    qed
  next
    show "inj_on (limiterMap s') (dom (limiterMap s'))"
      using inj by (simp add: s' logf_def)
  qed
  moreover have "limiterMap s' ip = Some r" by (simp add: s' r logf_def)
  moreover have "limiterMap s' ip' = Some r'" if "limiterMap s ip' = Some r'" for ip' r'
    using that None by (auto simp: s' logf_def)
  moreover have "config s' = config s" by (simp add: s' logf_def)
  ultimately show ?thesis by blast
next
  case (Some a)
  with g have s': "s' = s\<lparr>heap := (heap s)(nextRef s \<mapsto> NewLimiter (100 * Millisecond) (RateLimitEvery100MS (config s))),
         nextRef := nextRef s + 1, limiterMap := limiterMap s\<rparr>"
    and r: "r = a"
    by (auto simp: getLimiterForIP_def LoadOrStore_def Let_def)
  have "limiters_ok s'"
    using ok by (fastforce simp: limiters_ok_def s')
  with Some r show ?thesis by (simp add: s')
qed

lemma getLimiters_result:
  assumes "limiters_ok s" and "getLimiters s ips = (refs, s')"
  shows "limiters_ok s' \<and> length refs = length ips \<and> config s' = config s
         \<and> (\<forall>i<length ips. limiterMap s' (ips ! i) = Some (refs ! i))
         \<and> (\<forall>ip r. limiterMap s ip = Some r \<longrightarrow> limiterMap s' ip = Some r)"
  using assms
proof (induction ips arbitrary: s refs s')
  case Nil
  then show ?case by simp
next
  case (Cons ip ips)
  obtain r s1 where g: "getLimiterForIP s ip = (r, s1)" by (cases "getLimiterForIP s ip")
  obtain rs s2 where gs: "getLimiters s1 ips = (rs, s2)" by (cases "getLimiters s1 ips")
  from Cons.prems(2) g gs have res: "refs = r # rs" "s' = s2" by simp_all
  from getLimiterForIP_step [OF Cons.prems(1) g]
  have s1: "limiters_ok s1" "limiterMap s1 ip = Some r"
    "\<And>ip' r'. limiterMap s ip' = Some r' \<Longrightarrow> limiterMap s1 ip' = Some r'" "config s1 = config s"
    by blast+
  from Cons.IH [OF s1(1) gs]
  have s2: "limiters_ok s2" "length rs = length ips" "config s2 = config s1"
    "\<And>i. i < length ips \<Longrightarrow> limiterMap s2 (ips ! i) = Some (rs ! i)"
    "\<And>ip' r'. limiterMap s1 ip' = Some r' \<Longrightarrow> limiterMap s2 ip' = Some r'"
    by blast+
  have "limiterMap s2 ((ip # ips) ! i) = Some ((r # rs) ! i)" if "i < length (ip # ips)" for i
    using that s1(2) s2(4,5) by (cases i) simp_all
  with s1 s2 res show ?case by simp
qed


text \<open>
  What \<open>handleClient\<close> leaves alone: \<open>kept s s'\<close> says that \<open>s'\<close> has the admission
  state, the lifecycle state and the configuration of \<open>s\<close>, and every limiter \<open>s\<close> has
  registered.
\<close>

definition kept :: "Server \<Rightarrow> Server \<Rightarrow> bool" where
  "kept s s' \<longleftrightarrow>
     semaphore s' = semaphore s \<and> wg s' = wg s \<and> config s' = config s \<and>
     listener s' = listener s \<and> shutdownOnce s' = shutdownOnce s \<and> ctxDone s' = ctxDone s \<and>
     handler s' = handler s \<and>
     (\<forall>ip r. limiterMap s ip = Some r \<longrightarrow> limiterMap s' ip = Some r)"

lemma kept_refl: "kept s s"
  by (simp add: kept_def)

lemma kept_trans: "kept s s' \<Longrightarrow> kept s' s'' \<Longrightarrow> kept s s''"
  by (simp add: kept_def)

lemma kept_logf: "kept s (logf l m s)"
  by (simp add: kept_def logf_def)

lemma kept_getLimiterForIP: "getLimiterForIP s ip = (r, s') \<Longrightarrow> kept s s'"
  by (auto simp: getLimiterForIP_def LoadOrStore_def Let_def kept_def logf_def
      split: option.splits if_splits)

lemma kept_Limiter_Allow: "Limiter_Allow s ref v = (a, s') \<Longrightarrow> kept s s'"
  by (auto simp: Limiter_Allow_def kept_def)

lemma kept_handleClient_body:
  assumes "handleClient_body s conn verdict now = (r, s', c')"
  shows "kept s s'"
proof (cases "remoteAddr conn")
  case (OtherAddr a)
  with assms show ?thesis by (simp add: handleClient_body_def kept_refl)
next
  case (TCPAddr ip port)
  obtain limiter s1 where g: "getLimiterForIP s ip = (limiter, s1)"
    by (cases "getLimiterForIP s ip")
  obtain allowed s2 where a: "Limiter_Allow s1 limiter verdict = (allowed, s2)"
    by (cases "Limiter_Allow s1 limiter verdict")
  have k2: "kept s s2"
    by (rule kept_trans [OF kept_getLimiterForIP [OF g] kept_Limiter_Allow [OF a]])
  show ?thesis
  proof (cases allowed)
    case False
    with assms TCPAddr g a have "s' = s2"
      by (simp add: handleClient_body_def Let_def split: prod.splits)
    with k2 show ?thesis by simp
  next
    case True
    obtain e conn1 where d: "Conn_SetDeadline conn (now + ConnectionTimeout (config s2)) = (e, conn1)"
      by (cases "Conn_SetDeadline conn (now + ConnectionTimeout (config s2))")
    define s3 where "s3 = (case e of
        Some x \<Rightarrow> logf ErrorLevel (''Failed to set deadline for client '' @ ip @ '': '' @ errorString x) s2
      | None \<Rightarrow> s2)"
    have k3: "kept s2 s3"
      by (simp add: s3_def kept_logf kept_refl split: option.splits)
    from assms TCPAddr g a True d
    have "s' = s3 \<or> (\<exists>l m. s' = logf l m s3)"
      by (auto simp: handleClient_body_def Let_def s3_def
          split: prod.splits hresult.splits option.splits)
    then have "kept s3 s'" by (auto simp: kept_logf kept_refl)
    with k2 k3 show ?thesis by (blast intro: kept_trans)
  qed
qed

lemma recoverPanic_result:
  assumes "recoverPanic s f c r = (r', s', c')"
  shows "r' = None \<and> kept s s'"
  using assms
  by (auto simp: recoverPanic_def Let_def kept_logf kept_refl split: option.splits prod.splits)

lemma handleClient_result:
  assumes "0 < semaphore s"
  shows "\<exists>s' c'. handleClient s conn verdict now = (Exited, s', c')
           \<and> kept (s\<lparr>semaphore := semaphore s - 1, wg := wg s - 1\<rparr>) s'"
proof -
  obtain r s1 c1 where b: "handleClient_body s conn verdict now = (r, s1, c1)"
    by (metis prod.exhaust)
  obtain r' s2 c2 where rp: "recoverPanic s1 ''handleClient'' c1 r = (r', s2, c2)"
    by (metis prod.exhaust)
  from recoverPanic_result [OF rp] kept_handleClient_body [OF b]
  have r': "r' = None" and k: "kept s s2" by (auto intro: kept_trans)
  with assms have "semaphore s2 \<noteq> 0" by (simp add: kept_def)
  with b rp r' have "handleClient s conn verdict now
      = (Exited, s2\<lparr>semaphore := semaphore s2 - 1, wg := wg s2 - 1\<rparr>, Conn_Close c2)"
    by (simp add: handleClient_def Let_def)
  moreover from k have "kept (s\<lparr>semaphore := semaphore s - 1, wg := wg s - 1\<rparr>)
      (s2\<lparr>semaphore := semaphore s2 - 1, wg := wg s2 - 1\<rparr>)"
    by (simp add: kept_def)
  ultimately show ?thesis by blast
qed

lemma handleClient_limiterMap:
  assumes "handleClient s conn verdict now = (x, s', c')" and "limiterMap s ip = Some r"
  shows "limiterMap s' ip = Some r"
proof -
  obtain r0 s1 c1 where b: "handleClient_body s conn verdict now = (r0, s1, c1)"
    by (metis prod.exhaust)
  obtain r' s2 c2 where rp: "recoverPanic s1 ''handleClient'' c1 r0 = (r', s2, c2)"
    by (metis prod.exhaust)
  from recoverPanic_result [OF rp] kept_handleClient_body [OF b]
  have "kept s s2" by (auto intro: kept_trans)
  with assms(2) have "limiterMap s2 ip = Some r" by (simp add: kept_def)
  with assms(1) b rp show ?thesis
    by (auto simp: handleClient_def Let_def split: if_splits)
qed

lemma Shutdown_limiterMap: "limiterMap (snd (Shutdown s d)) = limiterMap s"
  by (auto simp: Shutdown_def Shutdown_body_def closeListener_def Listener_Close_def waitDrain_def
      cancel_def logf_def Let_def split: prod.splits sum.splits option.splits drain.splits if_splits)

lemma step_limiterMap:
  assumes "limiterMap (srv sys) ip = Some r"
  shows "limiterMap (srv (step sys a)) ip = Some r"
proof (cases a)
  case (Accept x)
  with assms show ?thesis
    by (auto simp: acceptOne_def logf_def split: accepted.splits)
next
  case (Finish i verdict now)
  show ?thesis
  proof (cases "i < length (running sys)")
    case True
    obtain x s' c' where h: "handleClient (srv sys) (running sys ! i) verdict now = (x, s', c')"
      by (metis prod.exhaust)
    from handleClient_limiterMap [OF h assms] Finish True h show ?thesis
      by (cases x) simp_all
  next
    case False
    with Finish assms show ?thesis by simp
  qed
next
  case (CallShutdown d)
  with assms Shutdown_limiterMap [of "srv sys" d] show ?thesis
    by (auto split: prod.splits option.splits)
next
  case (Signal d)
  with assms Shutdown_limiterMap [of "(srv sys)\<lparr>ctxDone := True\<rparr>" d] show ?thesis
    by (auto split: prod.splits option.splits)
qed

lemma run_limiterMap:
  "limiterMap (srv sys) ip = Some r \<Longrightarrow> limiterMap (srv (run sys acts)) ip = Some r"
proof (induction acts arbitrary: sys)
  case Nil
  then show ?case by (simp add: run_def)
next
  case (Cons a acts)
  from Cons.IH [OF step_limiterMap [OF Cons.prems, of a]] show ?case by (simp add: run_def)
qed

text \<open>
  C6, as amended. For every address and every order in which concurrent calls of
  \<open>getLimiterForIP\<close> take effect, the registry holds exactly one limiter per address:
  calls for the same address return the same limiter and calls for different addresses
  different ones, and the limiter registered for an address stays registered whatever
  the server does later. Each limiter is created with the burst of the configuration,
  \<open>RateLimitEvery100MS\<close>, and with a refill interval of 100 milliseconds, which is fixed
  in the code and not configured.
\<close>

theorem limiter_registry:
  assumes "limiters_ok s" and "getLimiters s ips = (refs, s')"
  shows "(\<forall>i<length ips. \<forall>j<length ips. (ips ! i = ips ! j) = (refs ! i = refs ! j))
         \<and> (\<forall>i<length ips. limiterMap s' (ips ! i) = Some (refs ! i))
         \<and> (\<forall>i<length ips. \<forall>acts. srv sys = s' \<longrightarrow>
               limiterMap (srv (run sys acts)) (ips ! i) = Some (refs ! i))
         \<and> (\<forall>i<length ips. \<exists>l. heap s' (refs ! i) = Some l
               \<and> every l = 100 * Millisecond \<and> burst l = RateLimitEvery100MS (config s))"
proof -
  from getLimiters_result [OF assms]
  have ok: "limiters_ok s'" and len: "length refs = length ips" and cfg: "config s' = config s"
    and reg: "\<And>i. i < length ips \<Longrightarrow> limiterMap s' (ips ! i) = Some (refs ! i)"
    by blast+
  have same: "(ips ! i = ips ! j) = (refs ! i = refs ! j)"
    if "i < length ips" "j < length ips" for i j
  proof
    assume "ips ! i = ips ! j"
    with reg [OF that(1)] reg [OF that(2)] show "refs ! i = refs ! j" by simp
  next
    assume "refs ! i = refs ! j"
    with reg [OF that(1)] reg [OF that(2)]
    have "limiterMap s' (ips ! i) = limiterMap s' (ips ! j)" "ips ! i \<in> dom (limiterMap s')"
      "ips ! j \<in> dom (limiterMap s')" by auto
    with ok show "ips ! i = ips ! j" by (auto simp: limiters_ok_def dest: inj_onD)
  qed
  have stay: "limiterMap (srv (run sys acts)) (ips ! i) = Some (refs ! i)"
    if "i < length ips" "srv sys = s'" for i acts
    using reg [OF that(1)] that(2) by (auto intro: run_limiterMap)
  have made: "\<exists>l. heap s' (refs ! i) = Some l \<and> every l = 100 * Millisecond
      \<and> burst l = RateLimitEvery100MS (config s)" if "i < length ips" for i
    using reg [OF that] ok cfg by (auto simp: limiters_ok_def)
  from same reg stay made show ?thesis by blast
qed

lemma getLimiters_test:
  "fst (getLimiters (testServer 100 2 MockHandler) [''10.0.0.1'', ''10.0.0.1'', ''10.0.0.2''])
     = [0, 0, 2]"
  by (simp add: getLimiterForIP_def LoadOrStore_def Let_def testServer_def logf_def)

theorem limiter_registry_witness:
  "limiters_ok (testServer 100 2 MockHandler)
   \<and> fst (getLimiters (testServer 100 2 MockHandler) [''10.0.0.1'', ''10.0.0.1'', ''10.0.0.2''])
       = [0, 0, 2]
   \<and> limiterMap (snd (getLimiters (testServer 100 2 MockHandler)
         [''10.0.0.1'', ''10.0.0.1'', ''10.0.0.2''])) ''10.0.0.1'' = Some 0
   \<and> limiterMap (snd (getLimiters (testServer 100 2 MockHandler)
         [''10.0.0.1'', ''10.0.0.1'', ''10.0.0.2''])) ''10.0.0.2'' = Some 2
   \<and> (\<exists>l. heap (snd (getLimiters (testServer 100 2 MockHandler)
         [''10.0.0.1'', ''10.0.0.1'', ''10.0.0.2''])) 2 = Some l
         \<and> every l = 100000000 \<and> burst l = 2)"
proof -
  let ?s = "testServer 100 2 MockHandler"
  let ?ips = "[''10.0.0.1'', ''10.0.0.1'', ''10.0.0.2'']"
  have ok: "limiters_ok ?s" by (simp add: limiters_ok_def testServer_def)
  have g: "getLimiters ?s ?ips = ([0, 0, 2], snd (getLimiters ?s ?ips))"
    using getLimiters_test by (metis prod.collapse)
  note t = limiter_registry [OF ok g]
  have a: "limiterMap (snd (getLimiters ?s ?ips)) (?ips ! 0) = Some ([0, 0, 2] ! 0)"
    using t [THEN conjunct2, THEN conjunct1, rule_format, of 0] by simp
  have b: "limiterMap (snd (getLimiters ?s ?ips)) (?ips ! 2) = Some ([0, 0, 2] ! 2)"
    using t [THEN conjunct2, THEN conjunct1, rule_format, of 2] by simp
  have c: "\<exists>l. heap (snd (getLimiters ?s ?ips)) ([0, 0, 2] ! 2) = Some l
      \<and> every l = 100 * Millisecond \<and> burst l = RateLimitEvery100MS (config ?s)"
    using t [THEN conjunct2, THEN conjunct2, THEN conjunct2, rule_format, of 2] by simp
  from ok getLimiters_test a b c show ?thesis
    by (simp add: Millisecond_def testServer_def testConfig_def)
qed

text \<open>
  The claim as stated fails: two configurations that differ in every field give limiters
  with the same refill interval, the 100 milliseconds written in the code.
\<close>

theorem limiter_interval_not_configured:
  "map_option every (heap (snd (getLimiterForIP
       ((testServer 100 2 MockHandler)
          \<lparr>config := \<lparr>Port = '':9000'', MaxConnections = 100, ConnectionTimeout = 2000000000,
             ShutdownTimeout = 5000000000, RateLimitEvery100MS = 2\<rparr>\<rparr>) ''10.0.0.1'')) 0)
     = Some 100000000
   \<and> map_option every (heap (snd (getLimiterForIP
       ((testServer 100 2 MockHandler)
          \<lparr>config := \<lparr>Port = '':8089'', MaxConnections = 7, ConnectionTimeout = 1,
             ShutdownTimeout = 3, RateLimitEvery100MS = 50\<rparr>\<rparr>) ''10.0.0.1'')) 0)
     = Some 100000000"
  by (simp add: getLimiterForIP_def LoadOrStore_def Let_def testServer_def logf_def NewLimiter_def
      Millisecond_def)

text \<open>
  The state of admission in a running system: every unit in flight holds one token of
  the semaphore and one count of the wait group, no more units are in flight than the
  semaphore has room for, the listener is bound and the process is alive.
\<close>

definition sys_inv :: "System \<Rightarrow> bool" where
  "sys_inv sys \<longleftrightarrow>
     semaphore (srv sys) = length (running sys) \<and>
     length (running sys) \<le> capacity (srv sys) \<and>
     wg (srv sys) = int (length (running sys)) \<and>
     listener (srv sys) \<noteq> None \<and> \<not> crashed sys"

lemma Shutdown_bound:
  assumes "listener s \<noteq> None"
  shows "\<exists>s'. Shutdown s d = (None, s') \<and> semaphore s' = semaphore s \<and> wg s' = wg s
           \<and> config s' = config s \<and> listener s' \<noteq> None"
  using assms
  by (auto simp: Shutdown_def Shutdown_body_def closeListener_def Listener_Close_def waitDrain_def
      cancel_def logf_def Let_def split: option.splits drain.splits)

lemma step_inv:
  assumes "sys_inv sys"
  shows "sys_inv (step sys a) \<and> config (srv (step sys a)) = config (srv sys)"
proof (cases a)
  case (Accept x)
  with assms show ?thesis
    by (auto simp: sys_inv_def acceptOne_def logf_def capacity_def split: accepted.splits)
next
  case (Finish i verdict now)
  show ?thesis
  proof (cases "i < length (running sys)")
    case True
    with assms have "0 < semaphore (srv sys)" by (auto simp: sys_inv_def)
    from handleClient_result [OF this, of "running sys ! i" verdict now]
    obtain s' c' where h: "handleClient (srv sys) (running sys ! i) verdict now = (Exited, s', c')"
      and k: "kept ((srv sys)\<lparr>semaphore := semaphore (srv sys) - 1, wg := wg (srv sys) - 1\<rparr>) s'"
      by blast
    from True have "length (take i (running sys) @ drop (Suc i) (running sys)) = length (running sys) - 1"
      by auto
    with assms True h k Finish show ?thesis
      by (auto simp: sys_inv_def kept_def capacity_def)
  next
    case False
    with Finish assms show ?thesis by simp
  qed
next
  case (CallShutdown d)
  from assms have "listener (srv sys) \<noteq> None" by (simp add: sys_inv_def)
  from Shutdown_bound [OF this, of d] CallShutdown assms show ?thesis
    by (auto simp: sys_inv_def capacity_def)
next
  case (Signal d)
  from assms have "listener ((srv sys)\<lparr>ctxDone := True\<rparr>) \<noteq> None" by (simp add: sys_inv_def)
  from Shutdown_bound [OF this, of d] Signal assms show ?thesis
    by (auto simp: sys_inv_def capacity_def)
qed

lemma run_inv:
  "sys_inv sys \<Longrightarrow> sys_inv (run sys acts) \<and> config (srv (run sys acts)) = config (srv sys)"
proof (induction acts arbitrary: sys)
  case Nil
  then show ?case by (simp add: run_def)
next
  case (Cons a acts)
  from step_inv [OF Cons.prems, of a] Cons.IH [of "step sys a"] show ?case
    by (simp add: run_def)
qed

lemma started_inv:
  assumes "NewServer c h = Inr s0"
  shows "sys_inv (started s0) \<and> config (srv (started s0)) = c"
  using assms
  by (auto simp: NewServer_def started_def Start_def sys_inv_def logf_def split: if_splits)

text \<open>
  C4. In every run of a started server the number of tokens in the admission semaphore
  is the number of units in flight and never exceeds \<open>MaxConnections\<close>, and the process
  does not die. A unit that holds a token releases exactly one on every path through
  \<open>handleClient\<close>, whether the handler returns, fails or panics, and returns. After a
  unit has ended, by a panic or otherwise, the accept loop admits the next connection.
\<close>

theorem admission_permits:
  assumes "NewServer c h = Inr s0"
  shows "semaphore (srv (run (started s0) acts)) \<le> nat (MaxConnections c)
         \<and> semaphore (srv (run (started s0) acts)) = length (running (run (started s0) acts))
         \<and> \<not> crashed (run (started s0) acts)
         \<and> (\<forall>s conn verdict now. 0 < semaphore s \<longrightarrow>
               fst (handleClient s conn verdict now) = Exited
               \<and> semaphore (fst (snd (handleClient s conn verdict now))) + 1 = semaphore s)
         \<and> (\<forall>i verdict now conn.
               i < length (running (run (started s0) acts))
               \<and> accepting (run (started s0) acts) \<and> listening (srv (run (started s0) acts)) \<longrightarrow>
               running (step (step (run (started s0) acts) (Finish i verdict now)) (Accept (Accepted conn)))
                 = take i (running (run (started s0) acts))
                   @ drop (Suc i) (running (run (started s0) acts)) @ [conn])"
proof -
  let ?sys = "run (started s0) acts"
  from started_inv [OF assms] run_inv [of "started s0" acts]
  have inv: "sys_inv ?sys" and cfg: "config (srv ?sys) = c" by simp_all
  have unit: "fst (handleClient s conn verdict now) = Exited
      \<and> semaphore (fst (snd (handleClient s conn verdict now))) + 1 = semaphore s"
    if "0 < semaphore s" for s conn verdict now
    using handleClient_result [OF that, of conn verdict now] that by (auto simp: kept_def)
  have next_one: "running (step (step ?sys (Finish i verdict now)) (Accept (Accepted conn)))
      = take i (running ?sys) @ drop (Suc i) (running ?sys) @ [conn]"
    if i: "i < length (running ?sys)" and acc: "accepting ?sys" and lis: "listening (srv ?sys)"
    for i verdict now conn
  proof -
    from inv i have "0 < semaphore (srv ?sys)" by (auto simp: sys_inv_def)
    from handleClient_result [OF this, of "running ?sys ! i" verdict now]
    obtain s' c' where h: "handleClient (srv ?sys) (running ?sys ! i) verdict now = (Exited, s', c')"
      and k: "kept ((srv ?sys)\<lparr>semaphore := semaphore (srv ?sys) - 1, wg := wg (srv ?sys) - 1\<rparr>) s'"
      by blast
    from inv i k have room: "semaphore s' < capacity s'"
      by (auto simp: sys_inv_def kept_def capacity_def)
    from k lis have "listening s'" by (simp add: kept_def listening_def)
    with i acc h room show ?thesis by (simp add: acceptOne_def)
  qed
  from inv cfg unit next_one show ?thesis
    by (simp add: sys_inv_def capacity_def)
qed


lemma run_panic:
  "run (started (testServer 1 5 MockHandlerWithPanic))
       [Accept (Accepted (clientConn [])), Finish 0 True 0]
     = (started (testServer 1 5 MockHandlerWithPanic))
         \<lparr>srv := (srv (started (testServer 1 5 MockHandlerWithPanic)))
              \<lparr>heap := [0 \<mapsto> \<lparr>every = 100000000, burst = 5, allowCalls = 1\<rparr>],
                nextRef := 1, limiterMap := [''192.0.2.7'' \<mapsto> 0],
                logger := [(InfoLevel, ''Server started on port :9000''),
                           (InfoLevel, ''Created new rate limiter for IP: 192.0.2.7''),
                           (ErrorLevel, ''Panic recovered in handleClient: hello panic'')]\<rparr>,
           finished := [(clientConn [])\<lparr>written := [(MsgOnErrInternal, None)], closeCalls := 1,
                          deadline := Some 2000000000\<rparr>]\<rparr>"
  by (simp add: run_def started_def Start_def testServer_def testConfig_def acceptOne_def logf_def
      listening_def capacity_def handleClient_def handleClient_body_def getLimiterForIP_def
      LoadOrStore_def Limiter_Allow_def recoverPanic_def Conn_SetDeadline_def Conn_Write_def
      Conn_Close_def MockHandlerWithPanic_def clientConn_def NewLimiter_def Millisecond_def Let_def)

theorem admission_permits_witness:
  "NewServer (testConfig 1 5) MockHandlerWithPanic = Inr (testServer 1 5 MockHandlerWithPanic)
   \<and> semaphore (srv (run (started (testServer 1 5 MockHandlerWithPanic))
         [Accept (Accepted (clientConn [])), Finish 0 True 0])) = 0
   \<and> \<not> crashed (run (started (testServer 1 5 MockHandlerWithPanic))
         [Accept (Accepted (clientConn [])), Finish 0 True 0])
   \<and> written (hd (finished (run (started (testServer 1 5 MockHandlerWithPanic))
         [Accept (Accepted (clientConn [])), Finish 0 True 0]))) = [(MsgOnErrInternal, None)]
   \<and> running (run (started (testServer 1 5 MockHandlerWithPanic))
         [Accept (Accepted (clientConn [])), Finish 0 True 0,
          Accept (Accepted (clientConn [Seg ''1'' None]))]) = [clientConn [Seg ''1'' None]]"
proof -
  let ?s0 = "testServer 1 5 MockHandlerWithPanic"
  have new: "NewServer (testConfig 1 5) MockHandlerWithPanic = Inr ?s0"
    by (rule NewServer_testServer) simp
  note t = admission_permits [OF new]
  have one: "run (started ?s0) [Accept (Accepted (clientConn []))]
      = (started ?s0)\<lparr>srv := (srv (started ?s0))\<lparr>semaphore := 1, wg := 1\<rparr>,
                       running := [clientConn []]\<rparr>"
    by (simp add: run_def started_def Start_def testServer_def testConfig_def acceptOne_def
        logf_def listening_def capacity_def)
  have sem: "semaphore (srv (run (started ?s0) [Accept (Accepted (clientConn [])), Finish 0 True 0])) = 0"
    and alive: "\<not> crashed (run (started ?s0) [Accept (Accepted (clientConn [])), Finish 0 True 0])"
    using t [of "[Accept (Accepted (clientConn [])), Finish 0 True 0]"]
    unfolding run_panic
    by (simp_all add: started_def Start_def testServer_def logf_def)
  have msg: "written (hd (finished (run (started ?s0)
      [Accept (Accepted (clientConn [])), Finish 0 True 0]))) = [(MsgOnErrInternal, None)]"
    unfolding run_panic by simp
  have "running (step (step (run (started ?s0) [Accept (Accepted (clientConn []))]) (Finish 0 True 0))
          (Accept (Accepted (clientConn [Seg ''1'' None]))))
      = take 0 (running (run (started ?s0) [Accept (Accepted (clientConn []))]))
        @ drop (Suc 0) (running (run (started ?s0) [Accept (Accepted (clientConn []))]))
        @ [clientConn [Seg ''1'' None]]"
    by (rule t [of "[Accept (Accepted (clientConn []))]", THEN conjunct2, THEN conjunct2,
          THEN conjunct2, THEN conjunct2, rule_format])
       (simp only: one, simp add: started_def Start_def listening_def logf_def)
  moreover have "running (run (started ?s0) [Accept (Accepted (clientConn []))]) = [clientConn []]"
    unfolding one by simp
  ultimately have "running (step (step (run (started ?s0) [Accept (Accepted (clientConn []))])
          (Finish 0 True 0)) (Accept (Accepted (clientConn [Seg ''1'' None]))))
      = [clientConn [Seg ''1'' None]]"
    by simp
  moreover have "run (started ?s0)
      [Accept (Accepted (clientConn [])), Finish 0 True 0,
       Accept (Accepted (clientConn [Seg ''1'' None]))]
      = step (step (run (started ?s0) [Accept (Accepted (clientConn []))]) (Finish 0 True 0))
          (Accept (Accepted (clientConn [Seg ''1'' None])))"
    by (simp add: run_def)
  ultimately have next_one: "running (run (started ?s0)
      [Accept (Accepted (clientConn [])), Finish 0 True 0,
       Accept (Accepted (clientConn [Seg ''1'' None]))]) = [clientConn [Seg ''1'' None]]"
    by (simp only:)
  from new sem alive msg next_one show ?thesis by blast
qed

end
